theory Spec2Isabelle
  imports Main "HOL-Library.Word"
begin

unbundle bit_operations_syntax

section \<open>Omnispeak: episode logic of Keen 5 and Keen 6 (ck5\_misc.c, ck6\_misc.c)\<close>

text \<open>
  A shallow embedding of the functions of \<^verbatim>\<open>ck5_misc.c\<close> and \<^verbatim>\<open>ck6_misc.c\<close>
  (and of the file-presence helpers of \<^verbatim>\<open>id_fs.c\<close>) that the specification speaks
  about. Global variables of the C program are fields of explicit state records; every
  function takes the state it reads and returns the state it leaves. Undefined behaviour
  of the C program (reading a tile outside the map planes, following a null pointer) is
  an error value.
\<close>

datatype error = OutOfBounds | NullPointer

text \<open>A computation that can run into undefined behaviour has the type \<open>error + 'a\<close>.\<close>

definition bind_err :: "error + 'a \<Rightarrow> ('a \<Rightarrow> error + 'b) \<Rightarrow> error + 'b" where
  "bind_err r f = (case r of Inl e \<Rightarrow> Inl e | Inr v \<Rightarrow> f v)"

fun fold_err :: "('a \<Rightarrow> 's \<Rightarrow> error + 's) \<Rightarrow> 'a list \<Rightarrow> 's \<Rightarrow> error + 's" where
  "fold_err f [] s = Inr s"
| "fold_err f (x # xs) s = bind_err (f x s) (fold_err f xs)"

subsection \<open>Galaxy explosion (ck5\_misc.c, CK\_GalExplodeUpdateCoords)\<close>

text \<open>
  \<^verbatim>\<open>struct CK5_GalExplode { uint16_t x[4000]; int16_t dx[4000]; uint16_t y[4000];
  int16_t dy[4000]; }\<close>. The four arrays are functions of the index; only the indices
  below 4000 are used. The velocities are kept as their 16-bit patterns and read as
  signed values by \<open>sint\<close>.
\<close>

record CK5_GalExplode =
  gal_x :: "nat \<Rightarrow> 16 word"
  gal_dx :: "nat \<Rightarrow> 16 word"
  gal_y :: "nat \<Rightarrow> 16 word"
  gal_dy :: "nat \<Rightarrow> 16 word"

text \<open>
  The video buffer. The drawing primitives are not part of these files.
  Modelled from the spec: the presentation interface (section 6: clear-screen,
  plot-pixel), as a colour for every pixel coordinate; \<open>VH_Bar\<close> fills a rectangle and
  \<open>VH_Plot\<close> sets one pixel.
\<close>

type_synonym screen = "int \<times> int \<Rightarrow> int"

definition VH_Bar :: "int \<Rightarrow> int \<Rightarrow> int \<Rightarrow> int \<Rightarrow> int \<Rightarrow> screen \<Rightarrow> screen" where
  "VH_Bar x y w h colour scr =
     (\<lambda>(px, py). if x \<le> px \<and> px < x + w \<and> y \<le> py \<and> py < y + h then colour else scr (px, py))"

definition VH_Plot :: "int \<Rightarrow> int \<Rightarrow> int \<Rightarrow> screen \<Rightarrow> screen" where
  "VH_Plot x y colour scr = scr((x, y) := colour)"

text \<open>
  \<^verbatim>\<open>newPos = info->x[i] + info->dx[i]\<close>: both operands are promoted to \<open>int\<close>, the sum
  is truncated to \<open>uint16_t\<close>.
\<close>

definition gal_newPos :: "16 word \<Rightarrow> 16 word \<Rightarrow> 16 word" where
  "gal_newPos p d = word_of_int (uint p + sint d)"

text \<open>
  The body of the loop for star \<open>i\<close>. Each \<^verbatim>\<open>continue\<close> leaves the body: the first
  before anything is written, the second after \<open>x[i]\<close> is written; the plot is reached
  only when neither is taken.
\<close>

definition GalExplode_star :: "nat \<Rightarrow> CK5_GalExplode \<times> screen \<Rightarrow> CK5_GalExplode \<times> screen" where
  "GalExplode_star i s =
     (let info = fst s; scr = snd s;
          newX = gal_newPos (gal_x info i) (gal_dx info i)
      in if uint newX > 320 * 0x80 then (info, scr)
         else
           let info1 = info\<lparr>gal_x := (gal_x info)(i := newX)\<rparr>;
               newY = gal_newPos (gal_y info1 i) (gal_dy info1 i)
           in if uint newY > 200 * 0x80 then (info1, scr)
              else
                let info2 = info1\<lparr>gal_y := (gal_y info1)(i := newY)\<rparr>
                in (info2, VH_Plot (uint (gal_x info2 i) div 0x80) (uint (gal_y info2 i) div 0x80) 0xF scr))"

text \<open>\<^verbatim>\<open>for (int i = 3999; i >= 0; i--)\<close>: \<open>GalExplode_loop n\<close> runs the stars \<open>n - 1, ..., 0\<close>.\<close>

fun GalExplode_loop :: "nat \<Rightarrow> CK5_GalExplode \<times> screen \<Rightarrow> CK5_GalExplode \<times> screen" where
  "GalExplode_loop 0 s = s"
| "GalExplode_loop (Suc i) s = GalExplode_loop i (GalExplode_star i s)"

text \<open>
  One step of the simulation: blank the buffer, then update and plot the stars. The star
  table is the cached chunk \<open>EXTERN_GALAXY\<close>, updated in place; the argument \<open>offset\<close> is
  not used by the function.
\<close>

definition CK_GalExplodeUpdateCoords :: "int \<Rightarrow> CK5_GalExplode \<times> screen \<Rightarrow> CK5_GalExplode \<times> screen" where
  "CK_GalExplodeUpdateCoords offset s = GalExplode_loop 4000 (fst s, VH_Bar 0 0 320 200 0 (snd s))"

text \<open>
  What one step does to star \<open>i\<close>, read off the loop body: the star is plotted when both
  new coordinates are within the bounds, at the pixel of the new position; \<open>x\<close> is
  written unless the new \<open>x\<close> is beyond its bound; \<open>y\<close> is written only when the star is
  plotted.
\<close>

definition gal_plotted :: "CK5_GalExplode \<Rightarrow> nat \<Rightarrow> bool" where
  "gal_plotted info i =
     (uint (gal_newPos (gal_x info i) (gal_dx info i)) \<le> 320 * 0x80 \<and>
      uint (gal_newPos (gal_y info i) (gal_dy info i)) \<le> 200 * 0x80)"

definition gal_pixel :: "CK5_GalExplode \<Rightarrow> nat \<Rightarrow> int \<times> int" where
  "gal_pixel info i =
     (uint (gal_newPos (gal_x info i) (gal_dx info i)) div 0x80,
      uint (gal_newPos (gal_y info i) (gal_dy info i)) div 0x80)"

definition gal_next_x :: "CK5_GalExplode \<Rightarrow> nat \<Rightarrow> 16 word" where
  "gal_next_x info i =
     (if uint (gal_newPos (gal_x info i) (gal_dx info i)) > 320 * 0x80 then gal_x info i
      else gal_newPos (gal_x info i) (gal_dx info i))"

definition gal_next_y :: "CK5_GalExplode \<Rightarrow> nat \<Rightarrow> 16 word" where
  "gal_next_y info i =
     (if gal_plotted info i then gal_newPos (gal_y info i) (gal_dy info i) else gal_y info i)"

text \<open>
  A star table for concrete runs: star 0 is at \<open>(40900, 256)\<close> with velocity \<open>(100, 0)\<close>, so
  its next \<open>x\<close> is 41000, beyond \<open>320 * 0x80 = 40960\<close>; every other star is at \<open>(1280, 256)\<close>
  with velocity \<open>(128, 0)\<close>. \<open>scr_lit\<close> is a buffer with every pixel lit.
\<close>

definition gal_demo :: CK5_GalExplode where
  "gal_demo = \<lparr>gal_x = (\<lambda>i. if i = 0 then 40900 else 1280), gal_dx = (\<lambda>i. if i = 0 then 100 else 128),
                 gal_y = (\<lambda>_. 256), gal_dy = (\<lambda>_. 0)\<rparr>"

definition scr_lit :: screen where
  "scr_lit = (\<lambda>_. 0xF)"

subsection \<open>Game objects and the object pool (ck\_def.h; CK5\_SpawnEnemyShot)\<close>

text \<open>
  \<^verbatim>\<open>CK_object\<close>, with the fields that the functions below read or write; \<^verbatim>\<open>CK_objPhysData\<close>
  is the type of its clipping rectangle, in units and in tiles. The activity
  state takes the four values \<^verbatim>\<open>OBJ_INACTIVE\<close>, \<^verbatim>\<open>OBJ_ACTIVE\<close>, \<^verbatim>\<open>OBJ_ALWAYS_ACTIVE\<close> and
  \<^verbatim>\<open>OBJ_EXISTS_ONLY_ONSCREEN\<close>. An action is known by its name.
\<close>

datatype CK_objActive = OBJ_INACTIVE | OBJ_ACTIVE | OBJ_ALWAYS_ACTIVE | OBJ_EXISTS_ONLY_ONSCREEN

type_synonym CK_action = string

record CK_objPhysData =
  unitX1 :: int
  unitY1 :: int
  unitX2 :: int
  unitY2 :: int
  tileX1 :: int
  tileY1 :: int
  tileX2 :: int
  tileY2 :: int

record CK_object =
  type :: int
  active :: CK_objActive
  visible :: bool
  clipped :: int
  posX :: int
  posY :: int
  xDirection :: int
  yDirection :: int
  actionTimer :: int
  currentAction :: "CK_action option"
  gfxChunk :: int
  zLayer :: int
  clipRects :: CK_objPhysData
  user1 :: int
  user2 :: int
  user3 :: int
  user4 :: int

text \<open>
  The object registry is not part of these files.
  Modelled from the spec: the object pool (sections 2, 3 and 6): a bounded pool of object
  records; \<open>AcquireObject\<close> takes a free slot and makes it live, or returns the null handle
  when no slot is free; \<open>ReleaseObject\<close> returns the slot of a live object. A handle is the
  number of a slot; the live objects are the chain that starts at \<^verbatim>\<open>ck_keenObj\<close>, new
  objects are linked at its end.
\<close>

record CK_pool =
  objArray :: "nat \<Rightarrow> CK_object"
  liveObjs :: "nat list"
  freeObjs :: "nat list"

definition CK_object_zero :: CK_object where
  "CK_object_zero =
     \<lparr>type = 0, active = OBJ_INACTIVE, visible = False, clipped = 0, posX = 0, posY = 0,
      xDirection = 0, yDirection = 0, actionTimer = 0, currentAction = None, gfxChunk = 0,
      zLayer = 0,
      clipRects = \<lparr>unitX1 = 0, unitY1 = 0, unitX2 = 0, unitY2 = 0, tileX1 = 0, tileY1 = 0, tileX2 = 0, tileY2 = 0\<rparr>,
      user1 = 0, user2 = 0, user3 = 0, user4 = 0\<rparr>"

definition CK_GetNewObj :: "bool \<Rightarrow> CK_pool \<Rightarrow> nat option \<times> CK_pool" where
  "CK_GetNewObj clearAll pool =
     (case freeObjs pool of
        [] \<Rightarrow> (None, pool)
      | h # fs \<Rightarrow>
          (Some h,
           pool\<lparr>objArray := (if clearAll then (objArray pool)(h := CK_object_zero) else objArray pool),
                liveObjs := liveObjs pool @ [h],
                freeObjs := fs\<rparr>))"

definition CK_RemoveObj :: "nat \<Rightarrow> CK_pool \<Rightarrow> CK_pool" where
  "CK_RemoveObj h pool = pool\<lparr>liveObjs := removeAll h (liveObjs pool), freeObjs := h # freeObjs pool\<rparr>"

text \<open>Every slot is live or free, and none is both or twice.\<close>

definition pool_wf :: "CK_pool \<Rightarrow> bool" where
  "pool_wf pool = distinct (liveObjs pool @ freeObjs pool)"

text \<open>
  \<^verbatim>\<open>CK5_SpawnEnemyShot\<close>. The four assignments and the call of \<^verbatim>\<open>CK_SetAction\<close> are
  \<open>CK5_EnemyShot_init\<close>. The constant \<^verbatim>\<open>CT5_EnemyShot\<close> and the functions \<^verbatim>\<open>CK_SetAction\<close>
  and \<^verbatim>\<open>CK_NotStuckInWall\<close> are defined outside these files: they are parameters.
\<close>

definition CK5_EnemyShot_init ::
  "int \<Rightarrow> (CK_object \<Rightarrow> CK_action \<Rightarrow> CK_object) \<Rightarrow> int \<Rightarrow> int \<Rightarrow> CK_action \<Rightarrow> CK_object \<Rightarrow> CK_object" where
  "CK5_EnemyShot_init CT5_EnemyShot CK_SetAction x y action new_object =
     CK_SetAction (new_object\<lparr>posX := x, posY := y, type := CT5_EnemyShot, active := OBJ_EXISTS_ONLY_ONSCREEN\<rparr>) action"

definition CK5_SpawnEnemyShot ::
  "int \<Rightarrow> (CK_object \<Rightarrow> CK_action \<Rightarrow> CK_object) \<Rightarrow> (CK_object \<Rightarrow> bool) \<Rightarrow>
   int \<Rightarrow> int \<Rightarrow> CK_action \<Rightarrow> CK_pool \<Rightarrow> nat option \<times> CK_pool" where
  "CK5_SpawnEnemyShot CT5_EnemyShot CK_SetAction CK_NotStuckInWall x y action pool =
     (case CK_GetNewObj True pool of
        (None, pool1) \<Rightarrow> (None, pool1)
      | (Some h, pool1) \<Rightarrow>
          let shot = CK5_EnemyShot_init CT5_EnemyShot CK_SetAction x y action (objArray pool1 h);
              pool2 = pool1\<lparr>objArray := (objArray pool1)(h := shot)\<rparr>
          in if CK_NotStuckInWall shot then (Some h, pool2) else (None, CK_RemoveObj h pool2))"

text \<open>A pool and parameters for concrete runs: slots 0 and 1 live, slots 2 and 3 free.\<close>

definition pool_demo :: CK_pool where
  "pool_demo = \<lparr>objArray = (\<lambda>_. CK_object_zero), liveObjs = [0, 1], freeObjs = [2, 3]\<rparr>"

definition SetAction_demo :: "CK_object \<Rightarrow> CK_action \<Rightarrow> CK_object" where
  "SetAction_demo obj action = obj\<lparr>currentAction := Some action, actionTimer := 0\<rparr>"

definition NotStuck_demo :: "CK_object \<Rightarrow> bool" where
  "NotStuck_demo obj = (0 \<le> posX obj)"

subsection \<open>Presence of the game files (id\_fs.c; CK5\_IsPresent, CK6\_IsPresent)\<close>

text \<open>
  \<^verbatim>\<open>id_fs.c\<close> has three versions of \<^verbatim>\<open>FSL_OpenFileInDirCaseInsensitive\<close> and of
  \<^verbatim>\<open>FS_GetFileSize\<close>; this is the first, under \<^verbatim>\<open>#ifdef __linux__\<close>.

  A directory that \<^verbatim>\<open>open\<close> can open is the list of its entries, in the order in which
  \<^verbatim>\<open>readdir\<close> gives them; a directory that cannot be opened is \<open>None\<close>. An entry has a name,
  may or may not be readable (\<^verbatim>\<open>openat\<close> succeeds), and has a size unless \<^verbatim>\<open>fstat\<close> fails.
  The three paths \<^verbatim>\<open>fs_keenPath\<close>, \<^verbatim>\<open>fs_omniPath\<close> and \<^verbatim>\<open>fs_userPath\<close> are given by the
  directories they name. An open file (\<^verbatim>\<open>FS_File\<close>) is the entry; the null file is \<open>None\<close>.
\<close>

record FS_entry =
  d_name :: string
  d_readable :: bool
  d_size :: "nat option"

type_synonym FS_File = "FS_entry option"

type_synonym FS_dir = "FS_entry list option"

record FS_paths =
  fs_keenPath :: FS_dir
  fs_omniPath :: FS_dir
  fs_userPath :: FS_dir

text \<open>
  The state of the process that the presence checks can reach: the global variable
  \<^verbatim>\<open>ck6_episode\<close> (null, or the address of one of the two episode definitions of Keen 6),
  the number of file descriptors that are open, and the sizes that \<^verbatim>\<open>FS_GetFileSize\<close> has
  printed on the standard output.
\<close>

datatype CK6_EpisodeDef = ck6v14e_episode | ck6v15e_episode

record proc_state =
  ck6_episode :: "CK6_EpisodeDef option"
  fs_descriptors :: nat
  fs_stdout :: "nat list"

text \<open>
  \<^verbatim>\<open>FSL_OpenFileInDirCaseInsensitive\<close> with \<^verbatim>\<open>forWrite = false\<close>. The results of \<^verbatim>\<open>open\<close> and of
  \<^verbatim>\<open>fdopendir\<close> are not tested: when the directory cannot be opened, \<^verbatim>\<open>dirFd\<close> is \<open>-1\<close>,
  \<^verbatim>\<open>fdopendir\<close> gives the null pointer, and \<^verbatim>\<open>readdir\<close> is called with it. Otherwise the
  descriptor of the directory is open during the loop over the entries. The first entry
  whose name compares equal decides: the file is opened with \<^verbatim>\<open>openat\<close>, the descriptor of
  the directory is closed, and the result is the file, or null when it cannot be opened.
  When no name compares equal the function returns null and the descriptor of the
  directory stays open. \<^verbatim>\<open>CK_Cross_strcasecmp\<close> is defined outside these files: it is a
  parameter.
\<close>

fun FSL_readdir_loop :: "(string \<Rightarrow> string \<Rightarrow> int) \<Rightarrow> FS_entry list \<Rightarrow> string \<Rightarrow> proc_state \<Rightarrow> FS_File \<times> proc_state" where
  "FSL_readdir_loop CK_Cross_strcasecmp [] fileName s = (None, s)"
| "FSL_readdir_loop CK_Cross_strcasecmp (dirEntry # rest) fileName s =
     (if CK_Cross_strcasecmp (d_name dirEntry) fileName = 0
      then (if d_readable dirEntry
            then (Some dirEntry, s\<lparr>fs_descriptors := fs_descriptors s + 1 - 1\<rparr>)
            else (None, s\<lparr>fs_descriptors := fs_descriptors s - 1\<rparr>))
      else FSL_readdir_loop CK_Cross_strcasecmp rest fileName s)"

definition FSL_OpenFileInDirCaseInsensitive ::
  "(string \<Rightarrow> string \<Rightarrow> int) \<Rightarrow> FS_dir \<Rightarrow> string \<Rightarrow> proc_state \<Rightarrow> error + FS_File \<times> proc_state" where
  "FSL_OpenFileInDirCaseInsensitive cmp dirPath fileName s =
     (case dirPath of
        None \<Rightarrow> Inl NullPointer
      | Some entries \<Rightarrow>
          Inr (FSL_readdir_loop cmp entries fileName (s\<lparr>fs_descriptors := fs_descriptors s + 1\<rparr>)))"

definition FS_CloseFile :: "FS_entry \<Rightarrow> proc_state \<Rightarrow> proc_state" where
  "FS_CloseFile file s = s\<lparr>fs_descriptors := fs_descriptors s - 1\<rparr>"

definition FS_OpenKeenFile :: "(string \<Rightarrow> string \<Rightarrow> int) \<Rightarrow> FS_paths \<Rightarrow> string \<Rightarrow> proc_state \<Rightarrow> error + FS_File \<times> proc_state" where
  "FS_OpenKeenFile cmp fs fileName s = FSL_OpenFileInDirCaseInsensitive cmp (fs_keenPath fs) fileName s"

definition FS_OpenOmniFile :: "(string \<Rightarrow> string \<Rightarrow> int) \<Rightarrow> FS_paths \<Rightarrow> string \<Rightarrow> proc_state \<Rightarrow> error + FS_File \<times> proc_state" where
  "FS_OpenOmniFile cmp fs fileName s =
     bind_err (FSL_OpenFileInDirCaseInsensitive cmp (fs_keenPath fs) fileName s)
       (\<lambda>(file, s1).
          case file of
            Some f \<Rightarrow> Inr (Some f, s1)
          | None \<Rightarrow> FSL_OpenFileInDirCaseInsensitive cmp (fs_omniPath fs) fileName s1)"

definition FS_IsKeenFilePresent :: "(string \<Rightarrow> string \<Rightarrow> int) \<Rightarrow> FS_paths \<Rightarrow> string \<Rightarrow> proc_state \<Rightarrow> error + bool \<times> proc_state" where
  "FS_IsKeenFilePresent cmp fs filename s =
     bind_err (FS_OpenKeenFile cmp fs filename s)
       (\<lambda>(file, s1). case file of None \<Rightarrow> Inr (False, s1) | Some f \<Rightarrow> Inr (True, FS_CloseFile f s1))"

definition FS_IsOmniFilePresent :: "(string \<Rightarrow> string \<Rightarrow> int) \<Rightarrow> FS_paths \<Rightarrow> string \<Rightarrow> proc_state \<Rightarrow> error + bool \<times> proc_state" where
  "FS_IsOmniFilePresent cmp fs filename s =
     bind_err (FS_OpenOmniFile cmp fs filename s)
       (\<lambda>(file, s1). case file of None \<Rightarrow> Inr (False, s1) | Some f \<Rightarrow> Inr (True, FS_CloseFile f s1))"

text \<open>
  \<^verbatim>\<open>FS_GetFileSize\<close>: zero when \<^verbatim>\<open>fstat\<close> fails; otherwise the size, which is printed.
\<close>

definition FS_GetFileSize :: "FS_entry \<Rightarrow> proc_state \<Rightarrow> nat \<times> proc_state" where
  "FS_GetFileSize file s =
     (case d_size file of
        None \<Rightarrow> (0, s)
      | Some st_size \<Rightarrow> (st_size, s\<lparr>fs_stdout := fs_stdout s @ [st_size]\<rparr>))"

text \<open>
  Both presence checks are sequences of \<^verbatim>\<open>if (!FS_Is...FilePresent(name)) return false;\<close>.
  \<open>require test rest\<close> is one such statement followed by the rest of the function.
\<close>

definition require ::
  "(proc_state \<Rightarrow> error + bool \<times> proc_state) \<Rightarrow> (proc_state \<Rightarrow> error + bool \<times> proc_state) \<Rightarrow>
   proc_state \<Rightarrow> error + bool \<times> proc_state" where
  "require test rest s = bind_err (test s) (\<lambda>(present, s1). if \<not> present then Inr (False, s1) else rest s1)"

definition CK5_IsPresent :: "(string \<Rightarrow> string \<Rightarrow> int) \<Rightarrow> FS_paths \<Rightarrow> proc_state \<Rightarrow> error + bool \<times> proc_state" where
  "CK5_IsPresent cmp fs =
     require (FS_IsKeenFilePresent cmp fs ''EGAGRAPH.CK5'')
    (require (FS_IsKeenFilePresent cmp fs ''GAMEMAPS.CK5'')
    (require (FS_IsKeenFilePresent cmp fs ''AUDIO.CK5'')
    (require (FS_IsOmniFilePresent cmp fs ''EGAHEAD.CK5'')
    (require (FS_IsOmniFilePresent cmp fs ''EGADICT.CK5'')
    (require (FS_IsOmniFilePresent cmp fs ''GFXINFOE.CK5'')
    (require (FS_IsOmniFilePresent cmp fs ''MAPHEAD.CK5'')
    (require (FS_IsOmniFilePresent cmp fs ''AUDIODCT.CK5'')
    (require (FS_IsOmniFilePresent cmp fs ''AUDIOHHD.CK5'')
    (require (FS_IsOmniFilePresent cmp fs ''AUDINFOE.CK5'')
    (require (FS_IsOmniFilePresent cmp fs ''ACTION.CK5'')
    (\<lambda>s. Inr (True, s))))))))))))"

text \<open>
  \<^verbatim>\<open>CK6_IsPresent\<close> opens \<^verbatim>\<open>EGAGRAPH.CK6\<close> again after the three tests of the user-provided
  files and assigns \<^verbatim>\<open>ck6_episode\<close> by its size, before the tests of the files that
  Omnispeak provides. \<^verbatim>\<open>FS_GetFileSize\<close> of a null file is an error.
\<close>

definition CK6_IsPresent :: "(string \<Rightarrow> string \<Rightarrow> int) \<Rightarrow> FS_paths \<Rightarrow> proc_state \<Rightarrow> error + bool \<times> proc_state" where
  "CK6_IsPresent cmp fs =
     require (FS_IsKeenFilePresent cmp fs ''EGAGRAPH.CK6'')
    (require (FS_IsKeenFilePresent cmp fs ''GAMEMAPS.CK6'')
    (require (FS_IsKeenFilePresent cmp fs ''AUDIO.CK6'')
    (\<lambda>s. bind_err (FS_OpenKeenFile cmp fs ''EGAGRAPH.CK6'' s)
       (\<lambda>(egaGraph, s1).
          case egaGraph of
            None \<Rightarrow> Inl NullPointer
          | Some file \<Rightarrow>
              (let (egaGraphSize, s2) = FS_GetFileSize file s1;
                   s3 = FS_CloseFile file s2;
                   s4 = (if egaGraphSize = 464662 then s3\<lparr>ck6_episode := Some ck6v15e_episode\<rparr>
                         else s3\<lparr>ck6_episode := Some ck6v14e_episode\<rparr>)
               in (require (FS_IsOmniFilePresent cmp fs ''EGAHEAD.CK6'')
                  (require (FS_IsOmniFilePresent cmp fs ''EGADICT.CK6'')
                  (require (FS_IsOmniFilePresent cmp fs ''GFXINFOE.CK6'')
                  (require (FS_IsOmniFilePresent cmp fs ''MAPHEAD.CK6'')
                  (require (FS_IsOmniFilePresent cmp fs ''AUDIODCT.CK6'')
                  (require (FS_IsOmniFilePresent cmp fs ''AUDIOHHD.CK6'')
                  (require (FS_IsOmniFilePresent cmp fs ''AUDINFOE.CK6'')
                  (require (FS_IsOmniFilePresent cmp fs ''ACTION.CK6'')
                  (\<lambda>s. Inr (True, s)))))))))) s4)))))"

text \<open>
  The files that each check requires, by the root in which it looks for them, and a
  sequence of tests as a list.
\<close>

fun all_required :: "(proc_state \<Rightarrow> error + bool \<times> proc_state) list \<Rightarrow> proc_state \<Rightarrow> error + bool \<times> proc_state" where
  "all_required [] s = Inr (True, s)"
| "all_required (test # tests) s = require test (all_required tests) s"

definition CK5_keenFiles :: "string list" where
  "CK5_keenFiles = [''EGAGRAPH.CK5'', ''GAMEMAPS.CK5'', ''AUDIO.CK5'']"

definition CK5_omniFiles :: "string list" where
  "CK5_omniFiles = [''EGAHEAD.CK5'', ''EGADICT.CK5'', ''GFXINFOE.CK5'', ''MAPHEAD.CK5'',
                    ''AUDIODCT.CK5'', ''AUDIOHHD.CK5'', ''AUDINFOE.CK5'', ''ACTION.CK5'']"

definition CK6_keenFiles :: "string list" where
  "CK6_keenFiles = [''EGAGRAPH.CK6'', ''GAMEMAPS.CK6'', ''AUDIO.CK6'']"

definition CK6_omniFiles :: "string list" where
  "CK6_omniFiles = [''EGAHEAD.CK6'', ''EGADICT.CK6'', ''GFXINFOE.CK6'', ''MAPHEAD.CK6'',
                    ''AUDIODCT.CK6'', ''AUDIOHHD.CK6'', ''AUDINFOE.CK6'', ''ACTION.CK6'']"

text \<open>
  What it is for a file to be present: \<open>FS_lookup\<close> is the entry that a directory gives for
  a name (the first whose name compares equal, if it is readable). A user-provided file
  is looked for in \<^verbatim>\<open>fs_keenPath\<close>, a file of Omnispeak in \<^verbatim>\<open>fs_keenPath\<close> and then in
  \<^verbatim>\<open>fs_omniPath\<close>.
\<close>

fun FS_lookup :: "(string \<Rightarrow> string \<Rightarrow> int) \<Rightarrow> FS_entry list \<Rightarrow> string \<Rightarrow> FS_File" where
  "FS_lookup cmp [] fileName = None"
| "FS_lookup cmp (dirEntry # rest) fileName =
     (if cmp (d_name dirEntry) fileName = 0
      then (if d_readable dirEntry then Some dirEntry else None)
      else FS_lookup cmp rest fileName)"

definition FS_in_dir :: "(string \<Rightarrow> string \<Rightarrow> int) \<Rightarrow> FS_dir \<Rightarrow> string \<Rightarrow> bool" where
  "FS_in_dir cmp dir fileName = (case dir of None \<Rightarrow> False | Some entries \<Rightarrow> FS_lookup cmp entries fileName \<noteq> None)"

definition keen_present :: "(string \<Rightarrow> string \<Rightarrow> int) \<Rightarrow> FS_paths \<Rightarrow> string \<Rightarrow> bool" where
  "keen_present cmp fs fileName = FS_in_dir cmp (fs_keenPath fs) fileName"

definition omni_present :: "(string \<Rightarrow> string \<Rightarrow> int) \<Rightarrow> FS_paths \<Rightarrow> string \<Rightarrow> bool" where
  "omni_present cmp fs fileName = (FS_in_dir cmp (fs_keenPath fs) fileName \<or> FS_in_dir cmp (fs_omniPath fs) fileName)"

text \<open>
  The episode that \<open>CK6_IsPresent\<close> selects, by the size of the \<^verbatim>\<open>EGAGRAPH.CK6\<close> that
  \<open>FS_OpenKeenFile\<close> finds.
\<close>

definition CK6_selected :: "(string \<Rightarrow> string \<Rightarrow> int) \<Rightarrow> FS_paths \<Rightarrow> CK6_EpisodeDef" where
  "CK6_selected cmp fs =
     (case fs_keenPath fs of
        None \<Rightarrow> ck6v14e_episode
      | Some entries \<Rightarrow>
          (case FS_lookup cmp entries ''EGAGRAPH.CK6'' of
             None \<Rightarrow> ck6v14e_episode
           | Some egaGraph \<Rightarrow> if d_size egaGraph = Some 464662 then ck6v15e_episode else ck6v14e_episode))"

text \<open>
  A file system for concrete runs: the three user-provided files of Keen 6 are there
  (\<^verbatim>\<open>EGAGRAPH.CK6\<close> with the size of version 1.5), no file of Omnispeak is. Names are
  compared exactly. The process has three descriptors open and has printed nothing.
\<close>

definition cmp_demo :: "string \<Rightarrow> string \<Rightarrow> int" where
  "cmp_demo a b = (if a = b then 0 else 1)"

definition fs_demo :: FS_paths where
  "fs_demo =
     \<lparr>fs_keenPath = Some [\<lparr>d_name = ''EGAGRAPH.CK6'', d_readable = True, d_size = Some 464662\<rparr>,
                          \<lparr>d_name = ''GAMEMAPS.CK6'', d_readable = True, d_size = Some 100\<rparr>,
                          \<lparr>d_name = ''AUDIO.CK6'', d_readable = True, d_size = Some 100\<rparr>],
      fs_omniPath = Some [],
      fs_userPath = Some []\<rparr>"

definition proc_demo :: proc_state where
  "proc_demo = \<lparr>ck6_episode = None, fs_descriptors = 3, fs_stdout = []\<rparr>"
subsection \<open>The tile planes of the level (CA\_TileAtPos, CA\_TilePtrAtPos, RF\_ReplaceTiles)\<close>

text \<open>
  The tile storage is not part of these files.
  Modelled from the spec: the tile storage interface (section 6: \<open>ReadTile\<close>, \<open>TilePointer\<close>,
  \<open>ReplaceTiles\<close>, \<open>MapWidth\<close>, \<open>MapHeight\<close>), with the layout that the pointer arithmetic of
  \<^verbatim>\<open>CK6_ToggleBigSwitch\<close> relies on (\<^verbatim>\<open>fgTile += CA_GetMapWidth() - 2\<close>): a plane is an array
  of \<open>width * height\<close> 16-bit tiles, row after row, and the tile at \<open>(x, y)\<close> has the index
  \<open>y * width + x\<close>. Plane 1 is the foreground, plane 2 the info plane. A tile pointer is
  the index into its plane; reading or writing through a pointer that is outside the
  plane is \<open>OutOfBounds\<close>.
\<close>

record CA_map =
  mapW :: nat
  mapH :: nat
  CA_mapPlanes :: "nat \<Rightarrow> nat \<Rightarrow> 16 word"

definition CA_TilePtrAtPos :: "CA_map \<Rightarrow> int \<Rightarrow> int \<Rightarrow> int" where
  "CA_TilePtrAtPos m x y = y * int (mapW m) + x"

definition CA_inPlane :: "CA_map \<Rightarrow> int \<Rightarrow> bool" where
  "CA_inPlane m p = (0 \<le> p \<and> p < int (mapW m * mapH m))"

definition CA_readTile :: "CA_map \<Rightarrow> nat \<Rightarrow> int \<Rightarrow> error + 16 word" where
  "CA_readTile m plane p = (if CA_inPlane m p then Inr (CA_mapPlanes m plane (nat p)) else Inl OutOfBounds)"

definition CA_writeTile :: "nat \<Rightarrow> int \<Rightarrow> 16 word \<Rightarrow> CA_map \<Rightarrow> error + CA_map" where
  "CA_writeTile plane p v m =
     (if CA_inPlane m p
      then Inr (m\<lparr>CA_mapPlanes := (CA_mapPlanes m)(plane := (CA_mapPlanes m plane)(nat p := v))\<rparr>)
      else Inl OutOfBounds)"

definition CA_TileAtPos :: "CA_map \<Rightarrow> int \<Rightarrow> int \<Rightarrow> nat \<Rightarrow> error + 16 word" where
  "CA_TileAtPos m x y plane = CA_readTile m plane (CA_TilePtrAtPos m x y)"

text \<open>
  \<open>RF_ReplaceTiles tilePtr plane dstX dstY width height\<close> copies the \<open>width * height\<close> tiles of
  the array \<open>tilePtr\<close> (row after row) to the rectangle of the plane at \<open>(dstX, dstY)\<close>.
\<close>

definition rect_coords :: "nat \<Rightarrow> nat \<Rightarrow> (nat \<times> nat) list" where
  "rect_coords width height = concat (map (\<lambda>y. map (\<lambda>x. (x, y)) [0..<width]) [0..<height])"

definition RF_ReplaceTiles :: "16 word list \<Rightarrow> nat \<Rightarrow> int \<Rightarrow> int \<Rightarrow> nat \<Rightarrow> nat \<Rightarrow> CA_map \<Rightarrow> error + CA_map" where
  "RF_ReplaceTiles tilePtr plane dstX dstY width height m =
     fold_err (\<lambda>(x, y) m1. CA_writeTile plane (CA_TilePtrAtPos m1 (dstX + int x) (dstY + int y)) (tilePtr ! (y * width + x)) m1)
       (rect_coords width height) m"

text \<open>
  \<^verbatim>\<open>CK5_OpenMapTeleporter\<close> and \<^verbatim>\<open>CK5_CloseMapTeleporter\<close>: four foreground tiles are read
  from the top left of the map (the open gate at \<open>(10, 0)\<close>, the closed gate at \<open>(0, 0)\<close>) and
  written at \<open>(tileX, tileY)\<close>.
\<close>

definition read_tiles :: "CA_map \<Rightarrow> nat \<Rightarrow> (int \<times> int) list \<Rightarrow> error + 16 word list" where
  "read_tiles m plane cs =
     fold_err (\<lambda>(x, y) acc. bind_err (CA_TileAtPos m x y plane) (\<lambda>t. Inr (acc @ [t]))) cs []"

definition CK5_OpenMapTeleporter :: "int \<Rightarrow> int \<Rightarrow> CA_map \<Rightarrow> error + CA_map" where
  "CK5_OpenMapTeleporter tileX tileY m =
     bind_err (read_tiles m 1 [(5 * 2 + 0, 0), (5 * 2 + 1, 0), (5 * 2 + 0, 1), (5 * 2 + 1, 1)])
       (\<lambda>tile_array. RF_ReplaceTiles tile_array 1 tileX tileY 2 2 m)"

definition CK5_CloseMapTeleporter :: "int \<Rightarrow> int \<Rightarrow> CA_map \<Rightarrow> error + CA_map" where
  "CK5_CloseMapTeleporter tileX tileY m =
     bind_err (read_tiles m 1 [(0, 0), (1, 0), (0, 1), (1, 1)])
       (\<lambda>tile_array. RF_ReplaceTiles tile_array 1 tileX tileY 2 2 m)"

subsection \<open>The info-layer scan: state and statements\<close>

text \<open>
  \<^verbatim>\<open>CK_Difficulty\<close> is the C enumeration \<^verbatim>\<open>D_NotPlaying, D_Easy, D_Normal, D_Hard\<close>; the
  comparisons of the scan are comparisons of its integer values.
\<close>

type_synonym CK_Difficulty = int

abbreviation (input) D_NotPlaying :: CK_Difficulty where "D_NotPlaying \<equiv> 0"
abbreviation (input) D_Easy :: CK_Difficulty where "D_Easy \<equiv> 1"
abbreviation (input) D_Normal :: CK_Difficulty where "D_Normal \<equiv> 2"
abbreviation (input) D_Hard :: CK_Difficulty where "D_Hard \<equiv> 3"

text \<open>
  \<^verbatim>\<open>ck_gameState\<close>, with the fields that the two scans read or write;
  \<open>fusesRemaining\<close> is \<^verbatim>\<open>ck_gameState.ep.ck5.fusesRemaining\<close>.
\<close>

record CK_GameState =
  difficulty :: CK_Difficulty
  levelState :: int
  numShots :: int
  currentLevel :: int
  fusesRemaining :: int
  levelsDone :: "nat \<Rightarrow> bool"

text \<open>
  The spawners (\<^verbatim>\<open>CK5_SpawnSparky\<close>, \<^verbatim>\<open>CK_SpawnItem\<close>, ...) are defined outside these
  files. A call of one is kept as its name and its arguments; what it does to the object
  pool is a parameter \<open>spawn\<close> of the scan. The calls of \<^verbatim>\<open>RF_SetScrollBlock\<close>, of
  \<^verbatim>\<open>CA_MarkGrChunk\<close> and of \<^verbatim>\<open>CA_CacheGrChunk\<close> are recorded in the order in which they
  are made.
\<close>

datatype arg = AInt int | ABool bool | CD_north | CD_east

datatype cache_call = CA_MarkGrChunk int | CA_CacheGrChunk int

record scan_world =
  gameState :: CK_GameState
  objPool :: CK_pool
  lumpsNeeded :: "nat \<Rightarrow> bool"
  ca_graphChunkNeeded :: "nat \<Rightarrow> 8 word"
  ca_levelbit :: "8 word"
  scrollBlocks :: "(int \<times> int \<times> bool) list"
  chunkCalls :: "cache_call list"
  tileMap :: CA_map

text \<open>
  The statements that the cases of the two \<^verbatim>\<open>switch (infoValue)\<close> are made of:
  a call of a spawner; \<^verbatim>\<open>ckN_lumpsNeeded[l] = true\<close>;
  \<^verbatim>\<open>ca_graphChunkNeeded[c] |= ca_levelbit\<close>; \<^verbatim>\<open>RF_SetScrollBlock(x, y, b)\<close>;
  \<^verbatim>\<open>fusesRemaining = n\<close>; \<^verbatim>\<open>fusesRemaining++\<close>.
\<close>

datatype stmt =
    Spawn string "arg list"
  | LumpNeeded nat
  | ChunkNeeded nat
  | SetScrollBlock int int bool
  | FusesSet int
  | FusesInc

fun exec_stmt :: "(string \<Rightarrow> arg list \<Rightarrow> CK_pool \<Rightarrow> CK_pool) \<Rightarrow> stmt \<Rightarrow> scan_world \<Rightarrow> scan_world" where
  "exec_stmt spawn (Spawn f args) w = w\<lparr>objPool := spawn f args (objPool w)\<rparr>"
| "exec_stmt spawn (LumpNeeded l) w = w\<lparr>lumpsNeeded := (lumpsNeeded w)(l := True)\<rparr>"
| "exec_stmt spawn (ChunkNeeded c) w =
     w\<lparr>ca_graphChunkNeeded := (ca_graphChunkNeeded w)(c := ca_graphChunkNeeded w c OR ca_levelbit w)\<rparr>"
| "exec_stmt spawn (SetScrollBlock x y b) w = w\<lparr>scrollBlocks := scrollBlocks w @ [(x, y, b)]\<rparr>"
| "exec_stmt spawn (FusesSet n) w = w\<lparr>gameState := (gameState w)\<lparr>fusesRemaining := n\<rparr>\<rparr>"
| "exec_stmt spawn FusesInc w =
     w\<lparr>gameState := (gameState w)\<lparr>fusesRemaining := fusesRemaining (gameState w) + 1\<rparr>\<rparr>"

definition exec_stmts :: "(string \<Rightarrow> arg list \<Rightarrow> CK_pool \<Rightarrow> CK_pool) \<Rightarrow> stmt list \<Rightarrow> scan_world \<Rightarrow> scan_world" where
  "exec_stmts spawn ss w = fold (exec_stmt spawn) ss w"

text \<open>
  The difficulty cascade \<^verbatim>\<open>case h: if (difficulty < D_Hard) break; case n: if (difficulty <
  D_Normal) break; case b: body; break;\<close>. Entering at the label \<open>h\<close> runs the test of \<open>h\<close>
  and, when it does not break, falls through into the code of the label \<open>n\<close>; entering at
  \<open>n\<close> runs the test of \<open>n\<close> and falls through into the body.
\<close>

definition at_normal :: "CK_Difficulty \<Rightarrow> stmt list \<Rightarrow> stmt list" where
  "at_normal d body = (if d < D_Normal then [] else body)"

definition at_hard :: "CK_Difficulty \<Rightarrow> stmt list \<Rightarrow> stmt list" where
  "at_hard d body = (if d < D_Hard then [] else at_normal d body)"

text \<open>The loop over the live objects at the end of both scans.\<close>

definition CK_DeactivateObject :: "CK_object \<Rightarrow> CK_object" where
  "CK_DeactivateObject obj = (if active obj \<noteq> OBJ_ALWAYS_ACTIVE then obj\<lparr>active := OBJ_INACTIVE\<rparr> else obj)"

definition CK_DeactivateObjects :: "CK_pool \<Rightarrow> CK_pool" where
  "CK_DeactivateObjects p =
     fold (\<lambda>h p1. p1\<lparr>objArray := (objArray p1)(h := CK_DeactivateObject (objArray p1 h))\<rparr>) (liveObjs p) p"

text \<open>
  The two loops \<^verbatim>\<open>for (y = 0; y < mapH; ++y) for (x = 0; x < mapW; ++x)\<close> visit the tiles in
  this order. \<open>scan_tiles tile spawn\<close> reads the info value of each and runs the
  statements of its case.
\<close>

definition scan_coords :: "CA_map \<Rightarrow> (int \<times> int) list" where
  "scan_coords m = concat (map (\<lambda>y. map (\<lambda>x. (int x, int y)) [0..<mapW m]) [0..<mapH m])"

definition scan_tile ::
  "(CK_GameState \<Rightarrow> int \<Rightarrow> int \<Rightarrow> int \<Rightarrow> stmt list) \<Rightarrow> (string \<Rightarrow> arg list \<Rightarrow> CK_pool \<Rightarrow> CK_pool) \<Rightarrow>
   int \<Rightarrow> int \<Rightarrow> int \<Rightarrow> scan_world \<Rightarrow> scan_world" where
  "scan_tile tile spawn x y infoValue w = exec_stmts spawn (tile (gameState w) x y infoValue) w"

definition scan_tiles ::
  "(CK_GameState \<Rightarrow> int \<Rightarrow> int \<Rightarrow> int \<Rightarrow> stmt list) \<Rightarrow> (string \<Rightarrow> arg list \<Rightarrow> CK_pool \<Rightarrow> CK_pool) \<Rightarrow>
   scan_world \<Rightarrow> error + scan_world" where
  "scan_tiles tile spawn w =
     fold_err (\<lambda>(x, y) w1. bind_err (CA_TileAtPos (tileMap w1) x y 2)
                              (\<lambda>v. Inr (scan_tile tile spawn x y (uint v) w1)))
       (scan_coords (tileMap w)) w"

text \<open>
  The pass over the lump categories at the end of both scans,
  \<^verbatim>\<open>for (i = 0; i < MAXLUMPS; i++) if (lumpsNeeded[i]) for (j = starts[i]; j <= ends[i]; j++)
  request(j)\<close>. \<open>lump_chunks\<close> is the requests that the pass makes for the category \<open>i\<close>: when
  its flag is set, one for every chunk from its start to its end, both included.
\<close>

definition lump_chunks :: "(int \<Rightarrow> cache_call) \<Rightarrow> int list \<Rightarrow> int list \<Rightarrow> (nat \<Rightarrow> bool) \<Rightarrow> nat \<Rightarrow> cache_call list" where
  "lump_chunks request starts ends needed i =
     (if needed i then map request [starts ! i .. ends ! i] else [])"

definition lump_requests :: "(int \<Rightarrow> cache_call) \<Rightarrow> nat \<Rightarrow> int list \<Rightarrow> int list \<Rightarrow> (nat \<Rightarrow> bool) \<Rightarrow> cache_call list" where
  "lump_requests request maxlumps starts ends needed =
     concat (map (lump_chunks request starts ends needed) [0..<maxlumps])"
subsection \<open>Keen 5: lumps and CK5\_ScanInfoLayer\<close>

abbreviation (input) CK5_MAXLUMPS :: nat where "CK5_MAXLUMPS \<equiv> 34"

abbreviation (input) CK5_Lump_0 :: nat where "CK5_Lump_0 \<equiv> 0"
abbreviation (input) CK5_Lump_Keen :: nat where "CK5_Lump_Keen \<equiv> 1"
abbreviation (input) CK5_Lump_Candy :: nat where "CK5_Lump_Candy \<equiv> 2"
abbreviation (input) CK5_Lump_Marshmallow :: nat where "CK5_Lump_Marshmallow \<equiv> 3"
abbreviation (input) CK5_Lump_Cola :: nat where "CK5_Lump_Cola \<equiv> 4"
abbreviation (input) CK5_Lump_Stix :: nat where "CK5_Lump_Stix \<equiv> 5"
abbreviation (input) CK5_Lump_SugarStoopies :: nat where "CK5_Lump_SugarStoopies \<equiv> 6"
abbreviation (input) CK5_Lump_BagOSugar :: nat where "CK5_Lump_BagOSugar \<equiv> 7"
abbreviation (input) CK5_Lump_VitalinKeg :: nat where "CK5_Lump_VitalinKeg \<equiv> 8"
abbreviation (input) CK5_Lump_Gems :: nat where "CK5_Lump_Gems \<equiv> 9"
abbreviation (input) CK5_Lump_Stunner :: nat where "CK5_Lump_Stunner \<equiv> 10"
abbreviation (input) CK5_Lump_PinkShot :: nat where "CK5_Lump_PinkShot \<equiv> 11"
abbreviation (input) CK5_Lump_MapKeen :: nat where "CK5_Lump_MapKeen \<equiv> 12"
abbreviation (input) CK5_Lump_ShikadiMaster :: nat where "CK5_Lump_ShikadiMaster \<equiv> 13"
abbreviation (input) CK5_Lump_Shikadi :: nat where "CK5_Lump_Shikadi \<equiv> 14"
abbreviation (input) CK5_Lump_Shocksund :: nat where "CK5_Lump_Shocksund \<equiv> 15"
abbreviation (input) CK5_Lump_Sphereful :: nat where "CK5_Lump_Sphereful \<equiv> 16"
abbreviation (input) CK5_Lump_Sparky :: nat where "CK5_Lump_Sparky \<equiv> 17"
abbreviation (input) CK5_Lump_Mine :: nat where "CK5_Lump_Mine \<equiv> 18"
abbreviation (input) CK5_Lump_Slicestar :: nat where "CK5_Lump_Slicestar \<equiv> 19"
abbreviation (input) CK5_Lump_RoboRed :: nat where "CK5_Lump_RoboRed \<equiv> 20"
abbreviation (input) CK5_Lump_Spirogrip :: nat where "CK5_Lump_Spirogrip \<equiv> 21"
abbreviation (input) CK5_Lump_Ampton :: nat where "CK5_Lump_Ampton \<equiv> 22"
abbreviation (input) CK5_Lump_VolteFace :: nat where "CK5_Lump_VolteFace \<equiv> 23"
abbreviation (input) CK5_Lump_PurplePlat :: nat where "CK5_Lump_PurplePlat \<equiv> 24"
abbreviation (input) CK5_Lump_Spindred :: nat where "CK5_Lump_Spindred \<equiv> 25"
abbreviation (input) CK5_Lump_Shelley :: nat where "CK5_Lump_Shelley \<equiv> 26"
abbreviation (input) CK5_Lump_RedPlat :: nat where "CK5_Lump_RedPlat \<equiv> 27"
abbreviation (input) CK5_Lump_UnusedRedPlat :: nat where "CK5_Lump_UnusedRedPlat \<equiv> 28"
abbreviation (input) CK5_Lump_Keycard :: nat where "CK5_Lump_Keycard \<equiv> 29"
abbreviation (input) CK5_Lump_Korath :: nat where "CK5_Lump_Korath \<equiv> 30"
abbreviation (input) CK5_Lump_QEDFuse :: nat where "CK5_Lump_QEDFuse \<equiv> 31"
abbreviation (input) CK5_Lump_QEDExplosion :: nat where "CK5_Lump_QEDExplosion \<equiv> 32"
abbreviation (input) CK5_Lump_Teleporter :: nat where "CK5_Lump_Teleporter \<equiv> 33"

definition ck5_itemLumps :: "nat list" where
  "ck5_itemLumps =
     [CK5_Lump_Gems, CK5_Lump_Gems, CK5_Lump_Gems, CK5_Lump_Gems, CK5_Lump_Candy,
      CK5_Lump_Marshmallow, CK5_Lump_Cola, CK5_Lump_Stix, CK5_Lump_SugarStoopies,
      CK5_Lump_BagOSugar, CK5_Lump_VitalinKeg, CK5_Lump_Stunner]"

definition ck5_lumpStarts :: "int list" where
  "ck5_lumpStarts =
     [0, 0x6C, 0xD2, 0xD4, 0xD6, 0xD8, 0xDA, 0xDC, 0xDE, 0xE0, 0xE9, 0xEC, 0xF2, 0x130,
      0x140, 0x151, 0x166, 0x16E, 0x17A, 0x181, 0x183, 0x189, 0x195, 0x1A1, 0x1A6, 0x1A8,
      0x1AC, 0x1BE, 0x1BF, 0xCF, 0x126, 0x11B, 0x11E, 0x122]"

definition ck5_lumpEnds :: "int list" where
  "ck5_lumpEnds =
     [0, 0xCE, 0xD3, 0xD5, 0xD7, 0xD9, 0xDB, 0xDD, 0xDF, 0xE8, 0xEA, 0xF1, 0x11A, 0x13F,
      0x150, 0x165, 0x16D, 0x179, 0x180, 0x182, 0x188, 0x194, 0x1A0, 0x1A5, 0x1A7, 0x1AB,
      0x1BD, 0x1BE, 0x1BF, 0xD1, 0x12F, 0x11D, 0x121, 0x125]"

text \<open>
  The cases of \<^verbatim>\<open>switch (infoValue)\<close> in \<^verbatim>\<open>CK5_ScanInfoLayer\<close>: the statements that the
  tile \<open>(x, y)\<close> with the value \<open>infoValue\<close> executes, in their order. The constant
  \<^verbatim>\<open>LS_TeleportToKorath\<close> is defined outside these files: it is a parameter. The tests
  of a case read the difficulty, the level state, the number of shots and the current
  level, which no statement of a case writes.
\<close>

definition CK5_tile :: "int \<Rightarrow> CK_GameState \<Rightarrow> int \<Rightarrow> int \<Rightarrow> int \<Rightarrow> stmt list" where
  "CK5_tile LS_TeleportToKorath gs x y infoValue =
     (let d = difficulty gs in
      if infoValue = 1 then
        [Spawn ''CK_SpawnKeen'' [AInt x, AInt y, AInt 1], Spawn ''CK_DemoSignSpawn'' [], ChunkNeeded 0xEB,
         LumpNeeded CK5_Lump_Keen]
      else if infoValue = 2 then
        [Spawn ''CK_SpawnKeen'' [AInt x, AInt y, AInt (- 1)], Spawn ''CK_DemoSignSpawn'' [], ChunkNeeded 0xEB,
         LumpNeeded CK5_Lump_Keen]
      else if infoValue = 3 then
        [Spawn ''CK_DemoSignSpawn'' [], ChunkNeeded 0xEB, LumpNeeded CK5_Lump_MapKeen] @
        (if levelState gs \<noteq> LS_TeleportToKorath then [Spawn ''CK_SpawnMapKeen'' [AInt x, AInt y]] else [])
      else if infoValue = 6 then at_hard d [Spawn ''CK5_SpawnSparky'' [AInt x, AInt y], LumpNeeded CK5_Lump_Sparky]
      else if infoValue = 5 then at_normal d [Spawn ''CK5_SpawnSparky'' [AInt x, AInt y], LumpNeeded CK5_Lump_Sparky]
      else if infoValue = 4 then [Spawn ''CK5_SpawnSparky'' [AInt x, AInt y], LumpNeeded CK5_Lump_Sparky]
      else if infoValue = 9 then at_hard d [Spawn ''CK5_SpawnMine'' [AInt x, AInt y], LumpNeeded CK5_Lump_Mine]
      else if infoValue = 8 then at_normal d [Spawn ''CK5_SpawnMine'' [AInt x, AInt y], LumpNeeded CK5_Lump_Mine]
      else if infoValue = 7 then [Spawn ''CK5_SpawnMine'' [AInt x, AInt y], LumpNeeded CK5_Lump_Mine]
      else if infoValue = 12 then at_hard d [Spawn ''CK5_SpawnSlice'' [AInt x, AInt y, CD_north], LumpNeeded CK5_Lump_Slicestar]
      else if infoValue = 11 then at_normal d [Spawn ''CK5_SpawnSlice'' [AInt x, AInt y, CD_north], LumpNeeded CK5_Lump_Slicestar]
      else if infoValue = 10 then [Spawn ''CK5_SpawnSlice'' [AInt x, AInt y, CD_north], LumpNeeded CK5_Lump_Slicestar]
      else if infoValue = 15 then at_hard d [Spawn ''CK5_SpawnRobo'' [AInt x, AInt y], LumpNeeded CK5_Lump_RoboRed]
      else if infoValue = 14 then at_normal d [Spawn ''CK5_SpawnRobo'' [AInt x, AInt y], LumpNeeded CK5_Lump_RoboRed]
      else if infoValue = 13 then [Spawn ''CK5_SpawnRobo'' [AInt x, AInt y], LumpNeeded CK5_Lump_RoboRed]
      else if infoValue = 18 then at_hard d [Spawn ''CK5_SpawnSpirogrip'' [AInt x, AInt y], LumpNeeded CK5_Lump_Spirogrip]
      else if infoValue = 17 then at_normal d [Spawn ''CK5_SpawnSpirogrip'' [AInt x, AInt y], LumpNeeded CK5_Lump_Spirogrip]
      else if infoValue = 16 then [Spawn ''CK5_SpawnSpirogrip'' [AInt x, AInt y], LumpNeeded CK5_Lump_Spirogrip]
      else if infoValue = 21 then at_hard d [Spawn ''CK5_SpawnSliceDiag'' [AInt x, AInt y], LumpNeeded CK5_Lump_Slicestar]
      else if infoValue = 20 then at_normal d [Spawn ''CK5_SpawnSliceDiag'' [AInt x, AInt y], LumpNeeded CK5_Lump_Slicestar]
      else if infoValue = 19 then [Spawn ''CK5_SpawnSliceDiag'' [AInt x, AInt y], LumpNeeded CK5_Lump_Slicestar]
      else if infoValue = 24 then at_hard d [Spawn ''CK5_SpawnSlice'' [AInt x, AInt y, CD_east], LumpNeeded CK5_Lump_Slicestar]
      else if infoValue = 23 then at_normal d [Spawn ''CK5_SpawnSlice'' [AInt x, AInt y, CD_east], LumpNeeded CK5_Lump_Slicestar]
      else if infoValue = 22 then [Spawn ''CK5_SpawnSlice'' [AInt x, AInt y, CD_east], LumpNeeded CK5_Lump_Slicestar]
      else if infoValue = 25 then [SetScrollBlock x y True]
      else if infoValue = 26 then
        (if levelState gs = LS_TeleportToKorath then [Spawn ''CK5_MapKeenTeleSpawn'' [AInt x, AInt y]] else [])
      else if infoValue = 27 \<or> infoValue = 28 \<or> infoValue = 29 \<or> infoValue = 30 then
        [Spawn ''CK_SpawnAxisPlatform'' [AInt x, AInt y, AInt (infoValue - 27), ABool False], LumpNeeded CK5_Lump_RedPlat]
      else if infoValue = 32 then [Spawn ''CK_SpawnFallPlat'' [AInt x, AInt y], LumpNeeded CK5_Lump_RedPlat]
      else if infoValue = 33 then
        (if d > D_Easy then [] else if d > D_Normal then []
         else [Spawn ''CK_SpawnStandPlatform'' [AInt x, AInt y], LumpNeeded CK5_Lump_RedPlat])
      else if infoValue = 34 then
        (if d > D_Normal then [] else [Spawn ''CK_SpawnStandPlatform'' [AInt x, AInt y], LumpNeeded CK5_Lump_RedPlat])
      else if infoValue = 35 then [Spawn ''CK_SpawnStandPlatform'' [AInt x, AInt y], LumpNeeded CK5_Lump_RedPlat]
      else if infoValue = 36 \<or> infoValue = 37 \<or> infoValue = 38 \<or> infoValue = 39 then
        [Spawn ''CK_SpawnGoPlat'' [AInt x, AInt y, AInt (infoValue - 36), ABool False], LumpNeeded CK5_Lump_RedPlat]
      else if infoValue = 40 then [Spawn ''CK_SneakPlatSpawn'' [AInt x, AInt y], LumpNeeded CK5_Lump_RedPlat]
      else if infoValue = 41 then
        (if currentLevel gs = 12 then [FusesSet 4, Spawn ''CK5_QEDSpawn'' [AInt x, AInt y]] else [FusesInc]) @
        [LumpNeeded CK5_Lump_QEDFuse]
      else if infoValue = 44 then at_hard d [Spawn ''CK5_SpawnAmpton'' [AInt x, AInt y], LumpNeeded CK5_Lump_Ampton]
      else if infoValue = 43 then at_normal d [Spawn ''CK5_SpawnAmpton'' [AInt x, AInt y], LumpNeeded CK5_Lump_Ampton]
      else if infoValue = 42 then [Spawn ''CK5_SpawnAmpton'' [AInt x, AInt y], LumpNeeded CK5_Lump_Ampton]
      else if infoValue = 53 then at_hard d [Spawn ''CK_TurretSpawn'' [AInt x, AInt y, AInt 0], LumpNeeded CK5_Lump_PinkShot]
      else if infoValue = 49 then at_normal d [Spawn ''CK_TurretSpawn'' [AInt x, AInt y, AInt 0], LumpNeeded CK5_Lump_PinkShot]
      else if infoValue = 45 then [Spawn ''CK_TurretSpawn'' [AInt x, AInt y, AInt 0], LumpNeeded CK5_Lump_PinkShot]
      else if infoValue = 54 then at_hard d [Spawn ''CK_TurretSpawn'' [AInt x, AInt y, AInt 1], LumpNeeded CK5_Lump_PinkShot]
      else if infoValue = 50 then at_normal d [Spawn ''CK_TurretSpawn'' [AInt x, AInt y, AInt 1], LumpNeeded CK5_Lump_PinkShot]
      else if infoValue = 46 then [Spawn ''CK_TurretSpawn'' [AInt x, AInt y, AInt 1], LumpNeeded CK5_Lump_PinkShot]
      else if infoValue = 55 then at_hard d [Spawn ''CK_TurretSpawn'' [AInt x, AInt y, AInt 2], LumpNeeded CK5_Lump_PinkShot]
      else if infoValue = 51 then at_normal d [Spawn ''CK_TurretSpawn'' [AInt x, AInt y, AInt 2], LumpNeeded CK5_Lump_PinkShot]
      else if infoValue = 47 then [Spawn ''CK_TurretSpawn'' [AInt x, AInt y, AInt 2], LumpNeeded CK5_Lump_PinkShot]
      else if infoValue = 56 then at_hard d [Spawn ''CK_TurretSpawn'' [AInt x, AInt y, AInt 3], LumpNeeded CK5_Lump_PinkShot]
      else if infoValue = 52 then at_normal d [Spawn ''CK_TurretSpawn'' [AInt x, AInt y, AInt 3], LumpNeeded CK5_Lump_PinkShot]
      else if infoValue = 48 then [Spawn ''CK_TurretSpawn'' [AInt x, AInt y, AInt 3], LumpNeeded CK5_Lump_PinkShot]
      else if infoValue = 69 then
        (if numShots gs \<ge> 5 then []
         else [Spawn ''CK_SpawnItem'' [AInt x, AInt y, AInt (68 - 57)], LumpNeeded (ck5_itemLumps ! nat (68 - 57))])
      else if 57 \<le> infoValue \<and> infoValue \<le> 68 then
        [Spawn ''CK_SpawnItem'' [AInt x, AInt y, AInt (infoValue - 57)], LumpNeeded (ck5_itemLumps ! nat (infoValue - 57))]
      else if infoValue = 70 then [Spawn ''CK_SpawnItem'' [AInt x, AInt y, AInt (infoValue - 58)], LumpNeeded CK5_Lump_Keycard]
      else if infoValue = 73 then at_hard d [Spawn ''CK5_SpawnVolte'' [AInt x, AInt y], LumpNeeded CK5_Lump_VolteFace]
      else if infoValue = 72 then at_normal d [Spawn ''CK5_SpawnVolte'' [AInt x, AInt y], LumpNeeded CK5_Lump_VolteFace]
      else if infoValue = 71 then [Spawn ''CK5_SpawnVolte'' [AInt x, AInt y], LumpNeeded CK5_Lump_VolteFace]
      else if infoValue = 76 then at_hard d [Spawn ''CK5_SpawnShelly'' [AInt x, AInt y], LumpNeeded CK5_Lump_Shelley]
      else if infoValue = 75 then at_normal d [Spawn ''CK5_SpawnShelly'' [AInt x, AInt y], LumpNeeded CK5_Lump_Shelley]
      else if infoValue = 74 then [Spawn ''CK5_SpawnShelly'' [AInt x, AInt y], LumpNeeded CK5_Lump_Shelley]
      else if infoValue = 79 then at_hard d [Spawn ''CK5_SpawnSpindred'' [AInt x, AInt y], LumpNeeded CK5_Lump_Spindred]
      else if infoValue = 78 then at_normal d [Spawn ''CK5_SpawnSpindred'' [AInt x, AInt y], LumpNeeded CK5_Lump_Spindred]
      else if infoValue = 77 then [Spawn ''CK5_SpawnSpindred'' [AInt x, AInt y], LumpNeeded CK5_Lump_Spindred]
      else if infoValue = 80 \<or> infoValue = 81 \<or> infoValue = 82 \<or> infoValue = 83 then
        [Spawn ''CK_SpawnGoPlat'' [AInt x, AInt y, AInt (infoValue - 80), ABool True], LumpNeeded CK5_Lump_PurplePlat]
      else if infoValue = 84 \<or> infoValue = 85 \<or> infoValue = 86 \<or> infoValue = 87 then
        [Spawn ''CK_SpawnAxisPlatform'' [AInt x, AInt y, AInt (infoValue - 84), ABool True], LumpNeeded CK5_Lump_PurplePlat]
      else if infoValue = 90 then at_hard d [Spawn ''CK5_SpawnMaster'' [AInt x, AInt y], LumpNeeded CK5_Lump_ShikadiMaster]
      else if infoValue = 89 then at_normal d [Spawn ''CK5_SpawnMaster'' [AInt x, AInt y], LumpNeeded CK5_Lump_ShikadiMaster]
      else if infoValue = 88 then [Spawn ''CK5_SpawnMaster'' [AInt x, AInt y], LumpNeeded CK5_Lump_ShikadiMaster]
      else if infoValue = 101 then at_hard d [Spawn ''CK5_SpawnShikadi'' [AInt x, AInt y], LumpNeeded CK5_Lump_Shikadi]
      else if infoValue = 100 then at_normal d [Spawn ''CK5_SpawnShikadi'' [AInt x, AInt y], LumpNeeded CK5_Lump_Shikadi]
      else if infoValue = 99 then [Spawn ''CK5_SpawnShikadi'' [AInt x, AInt y], LumpNeeded CK5_Lump_Shikadi]
      else if infoValue = 104 then at_hard d [Spawn ''CK5_SpawnShocksund'' [AInt x, AInt y], LumpNeeded CK5_Lump_Shocksund]
      else if infoValue = 103 then at_normal d [Spawn ''CK5_SpawnShocksund'' [AInt x, AInt y], LumpNeeded CK5_Lump_Shocksund]
      else if infoValue = 102 then [Spawn ''CK5_SpawnShocksund'' [AInt x, AInt y], LumpNeeded CK5_Lump_Shocksund]
      else if infoValue = 107 then at_hard d [Spawn ''CK5_SpawnSphereful'' [AInt x, AInt y], LumpNeeded CK5_Lump_Sphereful]
      else if infoValue = 106 then at_normal d [Spawn ''CK5_SpawnSphereful'' [AInt x, AInt y], LumpNeeded CK5_Lump_Sphereful]
      else if infoValue = 105 then [Spawn ''CK5_SpawnSphereful'' [AInt x, AInt y], LumpNeeded CK5_Lump_Sphereful]
      else if infoValue = 124 then [Spawn ''CK5_SpawnKorath'' [AInt x, AInt y], LumpNeeded CK5_Lump_Korath]
      else if infoValue = 125 then [LumpNeeded CK5_Lump_Teleporter]
      else [])"

text \<open>
  The pass over the lumps of Keen 5 requests with \<^verbatim>\<open>CA_MarkGrChunk\<close>.
\<close>

definition CK5_lump_requests :: "(nat \<Rightarrow> bool) \<Rightarrow> cache_call list" where
  "CK5_lump_requests needed = lump_requests CA_MarkGrChunk CK5_MAXLUMPS ck5_lumpStarts ck5_lumpEnds needed"

text \<open>
  The end of \<^verbatim>\<open>CK5_ScanInfoLayer\<close> on the world map (level 0): the gates of the teleporters
  are opened and closed by the tile row of Keen, \<^verbatim>\<open>ck_keenObj->posY >> 8\<close>; \<^verbatim>\<open>ck_keenObj\<close>
  is the first object of the live list.
\<close>

definition when_err :: "bool \<Rightarrow> ('s \<Rightarrow> error + 's) \<Rightarrow> 's \<Rightarrow> error + 's" where
  "when_err c f s = (if c then f s else Inr s)"

definition CK5_worldMapGates :: "CK_GameState \<Rightarrow> int \<Rightarrow> CA_map \<Rightarrow> error + CA_map" where
  "CK5_worldMapGates gs keenYTilePos m =
     bind_err (when_err (keenYTilePos < 75 \<or> keenYTilePos > 100)
                 (\<lambda>m1. bind_err (CK5_CloseMapTeleporter 24 76 m1) (CK5_OpenMapTeleporter 22 55)) m)
       (\<lambda>m2. bind_err (when_err (levelsDone gs 4 \<and> levelsDone gs 6 \<and> levelsDone gs 8 \<and>
                                   levelsDone gs 10 \<and> keenYTilePos > 39)
                          (CK5_OpenMapTeleporter 26 55) m2)
                (when_err (keenYTilePos < 39 \<or> keenYTilePos > 100) (CK5_OpenMapTeleporter 24 30)))"

definition CK5_ScanInfoLayer ::
  "int \<Rightarrow> (string \<Rightarrow> arg list \<Rightarrow> CK_pool \<Rightarrow> CK_pool) \<Rightarrow> scan_world \<Rightarrow> error + scan_world" where
  "CK5_ScanInfoLayer LS_TeleportToKorath spawn w =
     bind_err (scan_tiles (CK5_tile LS_TeleportToKorath) spawn
                 (w\<lparr>gameState := (gameState w)\<lparr>fusesRemaining := 0\<rparr>\<rparr>))
       (\<lambda>w1.
          let w2 = w1\<lparr>objPool := CK_DeactivateObjects (objPool w1)\<rparr>;
              w3 = w2\<lparr>chunkCalls := chunkCalls w2 @ CK5_lump_requests (lumpsNeeded w2)\<rparr>
          in if currentLevel (gameState w3) = 0
             then (case liveObjs (objPool w3) of
                     [] \<Rightarrow> Inl NullPointer
                   | ck_keenObj # others \<Rightarrow>
                       bind_err (CK5_worldMapGates (gameState w3) (posY (objArray (objPool w3) ck_keenObj) div 256) (tileMap w3))
                         (\<lambda>m. Inr (w3\<lparr>tileMap := m\<rparr>)))
             else Inr w3)"

text \<open>
  \<^verbatim>\<open>ck5_lumpsNeeded\<close> is a static array of the file: all its flags are clear when the
  program starts, and only \<^verbatim>\<open>CK5_ScanInfoLayer\<close> writes to it (the scan does not clear
  it). \<open>CK5_flags\<close> holds of the values that the array can have before a scan.
\<close>

inductive CK5_flags :: "(nat \<Rightarrow> bool) \<Rightarrow> bool" where
  CK5_flags_start: "CK5_flags (\<lambda>i. False)"
| CK5_flags_scan:
    "CK5_flags (lumpsNeeded w) \<Longrightarrow> CK5_ScanInfoLayer LS_TeleportToKorath spawn w = Inr w' \<Longrightarrow>
     CK5_flags (lumpsNeeded w')"
subsection \<open>Keen 6: lumps and CK6\_ScanInfoLayer\<close>

abbreviation (input) CK6_MAXLUMPS :: nat where "CK6_MAXLUMPS \<equiv> 0x28"

abbreviation (input) CK6_Lump_0 :: nat where "CK6_Lump_0 \<equiv> 0"
abbreviation (input) CK6_Lump_Keen :: nat where "CK6_Lump_Keen \<equiv> 1"
abbreviation (input) CK6_Lump_100Pts :: nat where "CK6_Lump_100Pts \<equiv> 2"
abbreviation (input) CK6_Lump_200Pts :: nat where "CK6_Lump_200Pts \<equiv> 3"
abbreviation (input) CK6_Lump_500Pts :: nat where "CK6_Lump_500Pts \<equiv> 4"
abbreviation (input) CK6_Lump_1000Pts :: nat where "CK6_Lump_1000Pts \<equiv> 5"
abbreviation (input) CK6_Lump_2000Pts :: nat where "CK6_Lump_2000Pts \<equiv> 6"
abbreviation (input) CK6_Lump_5000Pts :: nat where "CK6_Lump_5000Pts \<equiv> 7"
abbreviation (input) CK6_Lump_1UP :: nat where "CK6_Lump_1UP \<equiv> 8"
abbreviation (input) CK6_Lump_Gems :: nat where "CK6_Lump_Gems \<equiv> 9"
abbreviation (input) CK6_Lump_Stunner :: nat where "CK6_Lump_Stunner \<equiv> 10"
abbreviation (input) CK6_Lump_Mapkeen :: nat where "CK6_Lump_Mapkeen \<equiv> 11"
abbreviation (input) CK6_Lump_12 :: nat where "CK6_Lump_12 \<equiv> 12"
abbreviation (input) CK6_Lump_Bloog :: nat where "CK6_Lump_Bloog \<equiv> 13"
abbreviation (input) CK6_Lump_BloogletR :: nat where "CK6_Lump_BloogletR \<equiv> 14"
abbreviation (input) CK6_Lump_BloogletY :: nat where "CK6_Lump_BloogletY \<equiv> 15"
abbreviation (input) CK6_Lump_BloogletB :: nat where "CK6_Lump_BloogletB \<equiv> 16"
abbreviation (input) CK6_Lump_BloogletG :: nat where "CK6_Lump_BloogletG \<equiv> 17"
abbreviation (input) CK6_Lump_Platform :: nat where "CK6_Lump_Platform \<equiv> 18"
abbreviation (input) CK6_Lump_Gik :: nat where "CK6_Lump_Gik \<equiv> 19"
abbreviation (input) CK6_Lump_Blorb :: nat where "CK6_Lump_Blorb \<equiv> 20"
abbreviation (input) CK6_Lump_Bobba :: nat where "CK6_Lump_Bobba \<equiv> 21"
abbreviation (input) CK6_Lump_Babobba :: nat where "CK6_Lump_Babobba \<equiv> 22"
abbreviation (input) CK6_Lump_Bloogguard :: nat where "CK6_Lump_Bloogguard \<equiv> 23"
abbreviation (input) CK6_Lump_Flect :: nat where "CK6_Lump_Flect \<equiv> 24"
abbreviation (input) CK6_Lump_Bip :: nat where "CK6_Lump_Bip \<equiv> 25"
abbreviation (input) CK6_Lump_PlatBip :: nat where "CK6_Lump_PlatBip \<equiv> 26"
abbreviation (input) CK6_Lump_Bipship :: nat where "CK6_Lump_Bipship \<equiv> 27"
abbreviation (input) CK6_Lump_Nospike :: nat where "CK6_Lump_Nospike \<equiv> 28"
abbreviation (input) CK6_Lump_Orbatrix :: nat where "CK6_Lump_Orbatrix \<equiv> 29"
abbreviation (input) CK6_Lump_Ceilick :: nat where "CK6_Lump_Ceilick \<equiv> 30"
abbreviation (input) CK6_Lump_Fleex :: nat where "CK6_Lump_Fleex \<equiv> 31"
abbreviation (input) CK6_Lump_Rope :: nat where "CK6_Lump_Rope \<equiv> 32"
abbreviation (input) CK6_Lump_Sandwich :: nat where "CK6_Lump_Sandwich \<equiv> 33"
abbreviation (input) CK6_Lump_Turret :: nat where "CK6_Lump_Turret \<equiv> 34"
abbreviation (input) CK6_Lump_Passcard :: nat where "CK6_Lump_Passcard \<equiv> 35"
abbreviation (input) CK6_Lump_Molly :: nat where "CK6_Lump_Molly \<equiv> 36"

definition ck6_itemLumps :: "nat list" where
  "ck6_itemLumps =
     [CK6_Lump_Gems, CK6_Lump_Gems, CK6_Lump_Gems, CK6_Lump_Gems, CK6_Lump_100Pts,
      CK6_Lump_200Pts, CK6_Lump_500Pts, CK6_Lump_1000Pts, CK6_Lump_2000Pts, CK6_Lump_5000Pts,
      CK6_Lump_1UP, CK6_Lump_Stunner]"

definition ck6_lumpStarts :: "int list" where
  "ck6_lumpStarts =
     [11, 52, 150, 152, 154, 156, 158, 160, 162, 164, 173, 184, 0, 342, 351, 360, 369, 378,
      424, 387, 399, 402, 285, 254, 317, 414, 423, 269, 298, 329, 246, 239, 183, 182, 176,
      435, 433, 0, 0, 0]"

definition ck6_lumpEnds :: "int list" where
  "ck6_lumpEnds =
     [26, 149, 151, 153, 155, 157, 159, 161, 163, 172, 174, 238, 0, 350, 359, 368, 377, 386,
      432, 398, 401, 413, 297, 268, 328, 422, 423, 284, 316, 341, 253, 245, 183, 182, 181,
      435, 434, 0, 0, 0]"

text \<open>
  The cases of \<^verbatim>\<open>switch (infoValue)\<close> in \<^verbatim>\<open>CK6_ScanInfoLayer\<close>. In the case of the
  blooglets, \<^verbatim>\<open>(infoValue - 7) % 4\<close> has a non-negative left operand.
\<close>

definition CK6_tile :: "CK_GameState \<Rightarrow> int \<Rightarrow> int \<Rightarrow> int \<Rightarrow> stmt list" where
  "CK6_tile gs x y infoValue =
     (let d = difficulty gs in
      if infoValue = 1 then
        [Spawn ''CK_SpawnKeen'' [AInt x, AInt y, AInt 1], Spawn ''CK_DemoSignSpawn'' [], ChunkNeeded 175,
         LumpNeeded CK6_Lump_Keen]
      else if infoValue = 2 then
        [Spawn ''CK_SpawnKeen'' [AInt x, AInt y, AInt (- 1)], Spawn ''CK_DemoSignSpawn'' [], ChunkNeeded 175,
         LumpNeeded CK6_Lump_Keen]
      else if infoValue = 3 then
        [Spawn ''CK_DemoSignSpawn'' [], ChunkNeeded 175, Spawn ''CK_SpawnMapKeen'' [AInt x, AInt y],
         LumpNeeded CK6_Lump_Mapkeen]
      else if infoValue = 6 then at_hard d [LumpNeeded CK6_Lump_Bloog, Spawn ''CK6_SpawnBloog'' [AInt x, AInt y]]
      else if infoValue = 5 then at_normal d [LumpNeeded CK6_Lump_Bloog, Spawn ''CK6_SpawnBloog'' [AInt x, AInt y]]
      else if infoValue = 4 then [LumpNeeded CK6_Lump_Bloog, Spawn ''CK6_SpawnBloog'' [AInt x, AInt y]]
      else if 7 \<le> infoValue \<and> infoValue \<le> 14 then
        [LumpNeeded (CK6_Lump_BloogletR + nat ((infoValue - 7) mod 4)),
         Spawn ''CK6_SpawnBlooglet'' [AInt x, AInt y, AInt (infoValue - 7)]]
      else if infoValue = 15 \<or> infoValue = 16 then [Spawn ''CK6_SpawnMapCliff'' [AInt x, AInt y, AInt (infoValue - 15)]]
      else if infoValue = 24 then [LumpNeeded CK6_Lump_Molly, Spawn ''CK6_SpawnMolly'' [AInt x, AInt y]]
      else if infoValue = 20 then at_hard d [LumpNeeded CK6_Lump_Fleex, Spawn ''CK6_SpawnFleex'' [AInt x, AInt y]]
      else if infoValue = 19 then at_normal d [LumpNeeded CK6_Lump_Fleex, Spawn ''CK6_SpawnFleex'' [AInt x, AInt y]]
      else if infoValue = 18 then [LumpNeeded CK6_Lump_Fleex, Spawn ''CK6_SpawnFleex'' [AInt x, AInt y]]
      else if infoValue = 25 then [SetScrollBlock x y True]
      else if infoValue = 26 then [SetScrollBlock x y False]
      else if infoValue = 27 \<or> infoValue = 28 \<or> infoValue = 29 \<or> infoValue = 30 then
        [Spawn ''CK_SpawnAxisPlatform'' [AInt x, AInt y, AInt (infoValue - 27), ABool False], LumpNeeded CK6_Lump_Platform]
      else if infoValue = 32 then [Spawn ''CK_SpawnFallPlat'' [AInt x, AInt y], LumpNeeded CK6_Lump_Platform]
      else if infoValue = 33 then
        (if d > D_Easy then [] else if d > D_Normal then []
         else [Spawn ''CK_SpawnStandPlatform'' [AInt x, AInt y], LumpNeeded CK6_Lump_Platform])
      else if infoValue = 34 then
        (if d > D_Normal then [] else [Spawn ''CK_SpawnStandPlatform'' [AInt x, AInt y], LumpNeeded CK6_Lump_Platform])
      else if infoValue = 35 then [Spawn ''CK_SpawnStandPlatform'' [AInt x, AInt y], LumpNeeded CK6_Lump_Platform]
      else if infoValue = 36 \<or> infoValue = 37 \<or> infoValue = 38 \<or> infoValue = 39 then
        [Spawn ''CK_SpawnGoPlat'' [AInt x, AInt y, AInt (infoValue - 36), ABool False], LumpNeeded CK6_Lump_Platform,
         LumpNeeded CK6_Lump_PlatBip]
      else if infoValue = 40 then [Spawn ''CK_SneakPlatSpawn'' [AInt x, AInt y], LumpNeeded CK6_Lump_Platform]
      else if infoValue = 43 then at_hard d [LumpNeeded CK6_Lump_Bobba, Spawn ''CK6_SpawnBobba'' [AInt x, AInt y]]
      else if infoValue = 42 then at_normal d [LumpNeeded CK6_Lump_Bobba, Spawn ''CK6_SpawnBobba'' [AInt x, AInt y]]
      else if infoValue = 41 then [LumpNeeded CK6_Lump_Bobba, Spawn ''CK6_SpawnBobba'' [AInt x, AInt y]]
      else if infoValue = 44 \<or> infoValue = 45 then
        [Spawn ''CK6_SpawnSatelliteLoading'' [AInt x, AInt y, AInt (infoValue - 44)]]
      else if infoValue = 49 then at_hard d [LumpNeeded CK6_Lump_Nospike, Spawn ''CK6_SpawnNospike'' [AInt x, AInt y]]
      else if infoValue = 48 then at_normal d [LumpNeeded CK6_Lump_Nospike, Spawn ''CK6_SpawnNospike'' [AInt x, AInt y]]
      else if infoValue = 47 then [LumpNeeded CK6_Lump_Nospike, Spawn ''CK6_SpawnNospike'' [AInt x, AInt y]]
      else if infoValue = 52 then at_hard d [LumpNeeded CK6_Lump_Gik, Spawn ''CK6_SpawnGik'' [AInt x, AInt y]]
      else if infoValue = 51 then at_normal d [LumpNeeded CK6_Lump_Gik, Spawn ''CK6_SpawnGik'' [AInt x, AInt y]]
      else if infoValue = 50 then [LumpNeeded CK6_Lump_Gik, Spawn ''CK6_SpawnGik'' [AInt x, AInt y]]
      else if infoValue = 53 \<or> infoValue = 54 \<or> infoValue = 55 \<or> infoValue = 56 then
        [LumpNeeded CK6_Lump_Turret, Spawn ''CK_TurretSpawn'' [AInt x, AInt y, AInt (infoValue - 53)]]
      else if infoValue = 69 then
        (if numShots gs \<ge> 5 then []
         else [Spawn ''CK_SpawnItem'' [AInt x, AInt y, AInt (68 - 57)], LumpNeeded (ck6_itemLumps ! nat (68 - 57))])
      else if 57 \<le> infoValue \<and> infoValue \<le> 68 then
        [Spawn ''CK_SpawnItem'' [AInt x, AInt y, AInt (infoValue - 57)], LumpNeeded (ck6_itemLumps ! nat (infoValue - 57))]
      else if infoValue = 72 then at_hard d [LumpNeeded CK6_Lump_Orbatrix, Spawn ''CK6_SpawnOrbatrix'' [AInt x, AInt y]]
      else if infoValue = 71 then at_normal d [LumpNeeded CK6_Lump_Orbatrix, Spawn ''CK6_SpawnOrbatrix'' [AInt x, AInt y]]
      else if infoValue = 70 then [LumpNeeded CK6_Lump_Orbatrix, Spawn ''CK6_SpawnOrbatrix'' [AInt x, AInt y]]
      else if infoValue = 75 then
        at_hard d [LumpNeeded CK6_Lump_Bip, LumpNeeded CK6_Lump_PlatBip, LumpNeeded CK6_Lump_Bipship,
                   Spawn ''CK6_SpawnBipship'' [AInt x, AInt y]]
      else if infoValue = 74 then
        at_normal d [LumpNeeded CK6_Lump_Bip, LumpNeeded CK6_Lump_PlatBip, LumpNeeded CK6_Lump_Bipship,
                     Spawn ''CK6_SpawnBipship'' [AInt x, AInt y]]
      else if infoValue = 73 then
        [LumpNeeded CK6_Lump_Bip, LumpNeeded CK6_Lump_PlatBip, LumpNeeded CK6_Lump_Bipship,
         Spawn ''CK6_SpawnBipship'' [AInt x, AInt y]]
      else if infoValue = 78 then at_hard d [LumpNeeded CK6_Lump_Flect, Spawn ''CK6_SpawnFlect'' [AInt x, AInt y]]
      else if infoValue = 77 then at_normal d [LumpNeeded CK6_Lump_Flect, Spawn ''CK6_SpawnFlect'' [AInt x, AInt y]]
      else if infoValue = 76 then [LumpNeeded CK6_Lump_Flect, Spawn ''CK6_SpawnFlect'' [AInt x, AInt y]]
      else if infoValue = 81 then at_hard d [LumpNeeded CK6_Lump_Blorb, Spawn ''CK6_SpawnBlorb'' [AInt x, AInt y]]
      else if infoValue = 80 then at_normal d [LumpNeeded CK6_Lump_Blorb, Spawn ''CK6_SpawnBlorb'' [AInt x, AInt y]]
      else if infoValue = 79 then [LumpNeeded CK6_Lump_Blorb, Spawn ''CK6_SpawnBlorb'' [AInt x, AInt y]]
      else if infoValue = 84 then at_hard d [LumpNeeded CK6_Lump_Ceilick, Spawn ''CK6_SpawnCeilick'' [AInt x, AInt y]]
      else if infoValue = 83 then at_normal d [LumpNeeded CK6_Lump_Ceilick, Spawn ''CK6_SpawnCeilick'' [AInt x, AInt y]]
      else if infoValue = 82 then [LumpNeeded CK6_Lump_Ceilick, Spawn ''CK6_SpawnCeilick'' [AInt x, AInt y]]
      else if infoValue = 87 then at_hard d [LumpNeeded CK6_Lump_Bloogguard, Spawn ''CK6_SpawnBloogguard'' [AInt x, AInt y]]
      else if infoValue = 86 then at_normal d [LumpNeeded CK6_Lump_Bloogguard, Spawn ''CK6_SpawnBloogguard'' [AInt x, AInt y]]
      else if infoValue = 85 then [LumpNeeded CK6_Lump_Bloogguard, Spawn ''CK6_SpawnBloogguard'' [AInt x, AInt y]]
      else if infoValue = 88 then [Spawn ''CK6_SpawnGrabbiter'' [AInt x, AInt y]]
      else if infoValue = 89 then [Spawn ''CK6_SpawnSatellite'' [AInt x, AInt y]]
      else if infoValue = 99 then [LumpNeeded CK6_Lump_Rope, Spawn ''CK6_SpawnRope'' [AInt x, AInt y]]
      else if infoValue = 100 then [LumpNeeded CK6_Lump_Sandwich, Spawn ''CK6_SpawnSandwich'' [AInt x, AInt y]]
      else if infoValue = 101 then [LumpNeeded CK6_Lump_Passcard, Spawn ''CK6_SpawnPasscard'' [AInt x, AInt y]]
      else if infoValue = 104 then at_hard d [LumpNeeded CK6_Lump_Babobba, Spawn ''CK6_SpawnBabobba'' [AInt x, AInt y]]
      else if infoValue = 103 then at_normal d [LumpNeeded CK6_Lump_Babobba, Spawn ''CK6_SpawnBabobba'' [AInt x, AInt y]]
      else if infoValue = 102 then [LumpNeeded CK6_Lump_Babobba, Spawn ''CK6_SpawnBabobba'' [AInt x, AInt y]]
      else if infoValue = 105 then [Spawn ''CK6_SpawnRocket'' [AInt x, AInt y, AInt (infoValue - 105)]]
      else [])"

text \<open>The pass over the lumps of Keen 6 requests with \<^verbatim>\<open>CA_CacheGrChunk\<close>.\<close>

definition CK6_lump_requests :: "(nat \<Rightarrow> bool) \<Rightarrow> cache_call list" where
  "CK6_lump_requests needed = lump_requests CA_CacheGrChunk CK6_MAXLUMPS ck6_lumpStarts ck6_lumpEnds needed"

definition CK6_ScanInfoLayer ::
  "(string \<Rightarrow> arg list \<Rightarrow> CK_pool \<Rightarrow> CK_pool) \<Rightarrow> scan_world \<Rightarrow> error + scan_world" where
  "CK6_ScanInfoLayer spawn w =
     bind_err (scan_tiles CK6_tile spawn w)
       (\<lambda>w1.
          let w2 = w1\<lparr>objPool := CK_DeactivateObjects (objPool w1)\<rparr>
          in Inr (w2\<lparr>chunkCalls := chunkCalls w2 @ CK6_lump_requests (lumpsNeeded w2)\<rparr>))"

text \<open>
  \<^verbatim>\<open>ck6_lumpsNeeded\<close> is a static array of the file as well, written by
  \<^verbatim>\<open>CK6_ScanInfoLayer\<close> only. \<open>CK6_flags\<close> holds of the values that it can have before a
  scan.
\<close>

inductive CK6_flags :: "(nat \<Rightarrow> bool) \<Rightarrow> bool" where
  CK6_flags_start: "CK6_flags (\<lambda>i. False)"
| CK6_flags_scan:
    "CK6_flags (lumpsNeeded w) \<Longrightarrow> CK6_ScanInfoLayer spawn w = Inr w' \<Longrightarrow> CK6_flags (lumpsNeeded w')"

text \<open>
  The difficulty cascades of the two scans, as triples of the base code, the code gated
  by \<^verbatim>\<open>D_Normal\<close> and the code gated by \<^verbatim>\<open>D_Hard\<close>.
\<close>

definition CK5_cascades :: "(int \<times> int \<times> int) list" where
  "CK5_cascades =
     [(4, 5, 6), (7, 8, 9), (10, 11, 12), (13, 14, 15), (16, 17, 18), (19, 20, 21), (22, 23, 24),
      (42, 43, 44), (45, 49, 53), (46, 50, 54), (47, 51, 55), (48, 52, 56), (71, 72, 73),
      (74, 75, 76), (77, 78, 79), (88, 89, 90), (99, 100, 101), (102, 103, 104), (105, 106, 107)]"

definition CK6_cascades :: "(int \<times> int \<times> int) list" where
  "CK6_cascades =
     [(4, 5, 6), (18, 19, 20), (41, 42, 43), (47, 48, 49), (50, 51, 52), (70, 71, 72), (73, 74, 75),
      (76, 77, 78), (79, 80, 81), (82, 83, 84), (85, 86, 87), (102, 103, 104)]"

text \<open>The number of spawner calls among the statements of a case.\<close>

fun is_Spawn :: "stmt \<Rightarrow> bool" where
  "is_Spawn (Spawn f args) = True"
| "is_Spawn s = False"

definition spawn_count :: "stmt list \<Rightarrow> nat" where
  "spawn_count ss = length (filter is_Spawn ss)"

text \<open>Game states and a world for concrete runs.\<close>

definition gs_demo :: "CK_Difficulty \<Rightarrow> int \<Rightarrow> CK_GameState" where
  "gs_demo d level =
     \<lparr>difficulty = d, levelState = 0, numShots = 0, currentLevel = level, fusesRemaining = 7,
      levelsDone = (\<lambda>_. False)\<rparr>"

definition spawn_demo :: "string \<Rightarrow> arg list \<Rightarrow> CK_pool \<Rightarrow> CK_pool" where
  "spawn_demo f args p =
     (case CK_GetNewObj False p of
        (None, p1) \<Rightarrow> p1
      | (Some h, p1) \<Rightarrow>
          p1\<lparr>objArray := (objArray p1)(h := (objArray p1 h)\<lparr>active := (if f = ''CK_SpawnKeen'' then OBJ_ALWAYS_ACTIVE else OBJ_ACTIVE)\<rparr>)\<rparr>)"

definition map_demo :: CA_map where
  "map_demo = \<lparr>mapW = 2, mapH = 1, CA_mapPlanes = (\<lambda>plane i. if plane = 2 then (if i = 0 then 1 else 41) else 0)\<rparr>"

definition world_demo :: "CK_Difficulty \<Rightarrow> int \<Rightarrow> scan_world" where
  "world_demo d level =
     \<lparr>gameState = gs_demo d level,
      objPool = \<lparr>objArray = (\<lambda>_. CK_object_zero), liveObjs = [], freeObjs = [0, 1, 2, 3]\<rparr>,
      lumpsNeeded = (\<lambda>_. False), ca_graphChunkNeeded = (\<lambda>_. 0), ca_levelbit = 1,
      scrollBlocks = [], chunkCalls = [], tileMap = map_demo\<rparr>"

text \<open>A level of two tiles whose info values, 1 and 2, both ask for the lump of Keen.\<close>

definition map_twice :: CA_map where
  "map_twice = \<lparr>mapW = 2, mapH = 1, CA_mapPlanes = (\<lambda>plane i. if plane = 2 then (if i = 0 then 1 else 2) else 0)\<rparr>"

definition world_twice :: scan_world where
  "world_twice = (world_demo D_Hard 3)\<lparr>tileMap := map_twice\<rparr>"
subsection \<open>Keen 6: the big switch (CK6\_ToggleBigSwitch)\<close>

text \<open>
  The tile info tables and the values of the misc flags are defined outside these files:
  they are parameters, collected in a record. \<^verbatim>\<open>TI_ForeAnimTile\<close> gives the signed offset
  from a foreground tile to its animated counterpart, \<^verbatim>\<open>TI_ForeMisc\<close> its misc flag.
\<close>

record tile_info =
  TI_ForeAnimTile :: "16 word \<Rightarrow> int"
  TI_ForeMisc :: "16 word \<Rightarrow> int"
  MISCFLAG_DEADLY :: int
  MISCFLAG_BRIDGE :: int
  MISCFLAG_ACTIVEZAPPER :: int
  MISCFLAG_INACTIVEZAPPER :: int

text \<open>
  \<^verbatim>\<open>tile + TI_ForeAnimTile(tile)\<close>, stored in a \<^verbatim>\<open>uint16_t\<close>: the sum is computed in
  \<open>int\<close> and truncated to 16 bits.
\<close>

definition TI_animated :: "tile_info \<Rightarrow> 16 word \<Rightarrow> 16 word" where
  "TI_animated ti tile = word_of_int (uint tile + TI_ForeAnimTile ti tile)"

text \<open>
  \<^verbatim>\<open>while (!*infoTile) { tx++; infoTile++; }\<close>: the loop has no bound of its own; it walks
  through the info plane, across the ends of the rows, and a read beyond the plane is
  \<open>OutOfBounds\<close>.
\<close>

function switch_scan :: "CA_map \<Rightarrow> int \<Rightarrow> int \<Rightarrow> error + int \<times> int" where
  "switch_scan m tx infoTile =
     (if \<not> CA_inPlane m infoTile then Inl OutOfBounds
      else if CA_mapPlanes m 2 (nat infoTile) \<noteq> 0 then Inr (tx, infoTile)
      else switch_scan m (tx + 1) (infoTile + 1))"
  by pat_completeness auto
termination
  by (relation "measure (\<lambda>(m, tx, p). nat (int (mapW m * mapH m) - p))") (auto simp: CA_inPlane_def)

declare switch_scan.simps [simp del]

text \<open>
  The first part of \<^verbatim>\<open>CK6_ToggleBigSwitch\<close>: find the info tile of the switch, replace the
  block of two by three foreground tiles at \<open>(tx, ty)\<close> by their animated counterparts, and
  decode the destination from the info tile. The result is the destination and the map.
\<close>

definition switch_block :: "CA_map \<Rightarrow> int \<Rightarrow> int list" where
  "switch_block m fgTile =
     [fgTile, fgTile + 1,
      fgTile + int (mapW m), fgTile + int (mapW m) + 1,
      fgTile + 2 * int (mapW m), fgTile + 2 * int (mapW m) + 1]"

definition read_animated :: "tile_info \<Rightarrow> CA_map \<Rightarrow> int list \<Rightarrow> error + 16 word list" where
  "read_animated ti m ps =
     fold_err (\<lambda>p acc. bind_err (CA_readTile m 1 p) (\<lambda>t. Inr (acc @ [TI_animated ti t]))) ps []"

definition CK6_switch_replace :: "tile_info \<Rightarrow> int \<Rightarrow> int \<Rightarrow> CA_map \<Rightarrow> error + int \<times> int \<times> CA_map" where
  "CK6_switch_replace ti tx ty m =
     bind_err (read_animated ti m (switch_block m (CA_TilePtrAtPos m tx ty)))
       (\<lambda>tile_array.
          bind_err (RF_ReplaceTiles tile_array 1 tx ty 2 3 m)
            (\<lambda>m1. bind_err (CA_readTile m1 2 (CA_TilePtrAtPos m1 (tx + 1) (ty + 1)))
                     (\<lambda>v. Inr (uint (drop_bit 8 v), uint (v AND 0xFF), m1))))"

definition CK6_switch_tiles :: "tile_info \<Rightarrow> CK_object \<Rightarrow> bool \<Rightarrow> CA_map \<Rightarrow> error + int \<times> int \<times> CA_map" where
  "CK6_switch_tiles ti obj dir m =
     (let ty = (if dir then tileY2 (clipRects obj) else tileY1 (clipRects obj) - 2);
          tx = tileX1 (clipRects obj) - 1
      in bind_err (switch_scan m tx (CA_TilePtrAtPos m (tx + 1) (ty + 1)))
           (\<lambda>(tx, infoTile). CK6_switch_replace ti tx ty m))"

text \<open>
  The second part: which of its five effects the switch has at the destination
  \<open>(destX, destY)\<close> is decided by the info tile there and, when that is no arrow of a
  platform, by the misc flag of the foreground tile.
\<close>

datatype switch_effect = GoplatArrow | ActiveZapper | InactiveZapper | Bridge | BBlock

definition CK6_switch_effect :: "tile_info \<Rightarrow> int \<Rightarrow> int \<Rightarrow> CA_map \<Rightarrow> error + switch_effect" where
  "CK6_switch_effect ti destX destY m =
     bind_err (CA_readTile m 2 (CA_TilePtrAtPos m destX destY))
       (\<lambda>v. if uint v \<ge> 0x5B \<and> uint v < 0x5B + 8 then Inr GoplatArrow
             else bind_err (CA_readTile m 1 (CA_TilePtrAtPos m destX destY))
                    (\<lambda>fgTile.
                       let miscValue = TI_ForeMisc ti fgTile AND 0x7F
                       in if miscValue = MISCFLAG_ACTIVEZAPPER ti then Inr ActiveZapper
                          else if miscValue = MISCFLAG_INACTIVEZAPPER ti then Inr InactiveZapper
                          else if miscValue = MISCFLAG_BRIDGE ti then Inr Bridge
                          else Inr BBlock))"

definition infoPlaneInverses :: "int list" where
  "infoPlaneInverses = [2, 3, 0, 1, 6, 7, 4, 5]"

lemma RF_ReplaceTiles_one:
  "RF_ReplaceTiles [t] plane x y (Suc 0) (Suc 0) m = CA_writeTile plane (CA_TilePtrAtPos m x y) t m"
  by (simp add: RF_ReplaceTiles_def rect_coords_def bind_err_def split: sum.splits)

lemma CA_writeTile_dims:
  "CA_writeTile plane p v m = Inr m1 \<Longrightarrow> mapW m1 = mapW m \<and> mapH m1 = mapH m"
  by (auto simp: CA_writeTile_def split: if_splits)

text \<open>
  The zappers: the tile at the destination is replaced by the start tile, the tiles below
  it by the middle tile as long as the test of the loop holds, the tile that ends the
  loop by the end tile. \<open>continue\<close> is the test, on the misc flag of the tile.
\<close>

function zapper_loop :: "tile_info \<Rightarrow> (int \<Rightarrow> bool) \<Rightarrow> 16 word \<Rightarrow> int \<Rightarrow> int \<Rightarrow> CA_map \<Rightarrow> error + int \<times> CA_map" where
  "zapper_loop ti continue mid destX destY m =
     (case CA_TileAtPos m destX destY 1 of
        Inl e \<Rightarrow> Inl e
      | Inr t \<Rightarrow>
          if continue (TI_ForeMisc ti t)
          then (case RF_ReplaceTiles [mid] 1 destX destY 1 1 m of
                  Inl e \<Rightarrow> Inl e
                | Inr m1 \<Rightarrow> zapper_loop ti continue mid destX (destY + 1) m1)
          else Inr (destY, m))"
  by pat_completeness auto
termination
proof (relation "measure (\<lambda>(ti, c, mid, x, y, m). nat (int (mapW m * mapH m) - CA_TilePtrAtPos m x y))", goal_cases)
  case 1
  show ?case by simp
next
  case (2 ti continue mid destX destY m t m1)
  from 2(1) have p: "CA_inPlane m (CA_TilePtrAtPos m destX destY)"
    by (auto simp: CA_TileAtPos_def CA_readTile_def split: if_splits)
  then have w: "0 < mapW m"
    by (cases "mapW m") (auto simp: CA_inPlane_def)
  have d: "mapW m1 = mapW m" "mapH m1 = mapH m"
    using 2(3) by (simp_all add: RF_ReplaceTiles_one CA_writeTile_dims)
  show ?case
    using p w by (simp add: d CA_TilePtrAtPos_def CA_inPlane_def algebra_simps)
qed

declare zapper_loop.simps [simp del]

definition zapper :: "tile_info \<Rightarrow> (int \<Rightarrow> bool) \<Rightarrow> int \<Rightarrow> int \<Rightarrow> int \<Rightarrow> int \<Rightarrow> int \<Rightarrow> CA_map \<Rightarrow> error + CA_map" where
  "zapper ti continue sx mx ex destX destY m =
     bind_err (CA_TileAtPos m sx 0 1) (\<lambda>start.
     bind_err (CA_TileAtPos m mx 0 1) (\<lambda>mid.
     bind_err (CA_TileAtPos m ex 0 1) (\<lambda>end_tile.
     bind_err (RF_ReplaceTiles [start] 1 destX destY 1 1 m) (\<lambda>m1.
     bind_err (zapper_loop ti continue mid destX (destY + 1) m1) (\<lambda>(destY1, m2).
       RF_ReplaceTiles [end_tile] 1 destX destY1 1 1 m2)))))"

text \<open>
  The bridge: in the row of the destination from \<open>destX\<close>, and in the row below from
  \<open>destX - 1\<close>, every tile is replaced by its animated counterpart, up to the first tile
  whose animation offset is zero or to the width of the map.
\<close>

function bridge_row :: "tile_info \<Rightarrow> int \<Rightarrow> int \<Rightarrow> CA_map \<Rightarrow> error + CA_map" where
  "bridge_row ti y x m =
     (if x < int (mapW m)
      then (case CA_TileAtPos m x y 1 of
              Inl e \<Rightarrow> Inl e
            | Inr currentTile \<Rightarrow>
                if TI_ForeAnimTile ti currentTile = 0 then Inr m
                else (case RF_ReplaceTiles [TI_animated ti currentTile] 1 x y 1 1 m of
                        Inl e \<Rightarrow> Inl e
                      | Inr m1 \<Rightarrow> bridge_row ti y (x + 1) m1))
      else Inr m)"
  by pat_completeness auto
termination
proof (relation "measure (\<lambda>(ti, y, x, m). nat (int (mapW m) - x))", goal_cases)
  case 1
  show ?case by simp
next
  case (2 ti y x m currentTile m1)
  have "mapW m1 = mapW m"
    using 2(4) by (simp add: RF_ReplaceTiles_one CA_writeTile_dims)
  then show ?case using 2(1) by simp
qed

declare bridge_row.simps [simp del]

definition bridge :: "tile_info \<Rightarrow> int \<Rightarrow> int \<Rightarrow> CA_map \<Rightarrow> error + CA_map" where
  "bridge ti destX destY m =
     bind_err (bridge_row ti destY (destX - 0) m) (bridge_row ti (destY + 1) (destX - 1))"

definition CK6_switch_apply :: "tile_info \<Rightarrow> int \<Rightarrow> int \<Rightarrow> CA_map \<Rightarrow> error + CA_map" where
  "CK6_switch_apply ti destX destY m =
     bind_err (CK6_switch_effect ti destX destY m)
       (\<lambda>effect.
          case effect of
            GoplatArrow \<Rightarrow>
              bind_err (CA_readTile m 2 (CA_TilePtrAtPos m destX destY))
                (\<lambda>v. CA_writeTile 2 (CA_TilePtrAtPos m destX destY)
                        (word_of_int (infoPlaneInverses ! nat (uint v - 0x5B) + 0x5B)) m)
          | ActiveZapper \<Rightarrow>
              zapper ti (\<lambda>misc. misc = MISCFLAG_DEADLY ti) 0 1 2 destX destY m
          | InactiveZapper \<Rightarrow>
              zapper ti (\<lambda>misc. misc \<noteq> MISCFLAG_INACTIVEZAPPER ti) 3 4 5 destX destY m
          | Bridge \<Rightarrow> bridge ti destX destY m
          | BBlock \<Rightarrow>
              bind_err (CA_readTile m 2 (CA_TilePtrAtPos m destX destY))
                (\<lambda>v. CA_writeTile 2 (CA_TilePtrAtPos m destX destY) (v XOR 0x1F) m))"

text \<open>
  \<^verbatim>\<open>CK6_ToggleBigSwitch\<close>. The sound that it plays is not part of the state.
  \<open>CK6_toggle_effect\<close> is the effect that a call has: the one decided at the destination,
  after the tiles of the switch are replaced.
\<close>

definition CK6_ToggleBigSwitch :: "tile_info \<Rightarrow> CK_object \<Rightarrow> bool \<Rightarrow> CA_map \<Rightarrow> error + CA_map" where
  "CK6_ToggleBigSwitch ti obj dir m =
     bind_err (CK6_switch_tiles ti obj dir m) (\<lambda>(destX, destY, m1). CK6_switch_apply ti destX destY m1)"

definition CK6_toggle_effect :: "tile_info \<Rightarrow> CK_object \<Rightarrow> bool \<Rightarrow> CA_map \<Rightarrow> error + switch_effect" where
  "CK6_toggle_effect ti obj dir m =
     bind_err (CK6_switch_tiles ti obj dir m) (\<lambda>(destX, destY, m1). CK6_switch_effect ti destX destY m1)"

text \<open>
  The bridge region of a toggle: in each of the two rows of the bridge, the run of tiles
  from the first column of the row up to the first tile whose animation offset is zero
  (or to the width of the map). \<open>bridge_row_run\<close> is the run of a row of a level, as the
  list of the indices of its tiles in the foreground plane; \<open>bridge_row_oob\<close> holds when
  the tile that ends the run is outside the plane. \<open>bridge_region\<close> is the two runs of the
  level as the bridge finds it, which is after the tiles of the switch are replaced.
\<close>

function bridge_row_run :: "tile_info \<Rightarrow> int \<Rightarrow> int \<Rightarrow> CA_map \<Rightarrow> nat list" where
  "bridge_row_run ti y x m =
     (if x < int (mapW m) \<and> CA_inPlane m (CA_TilePtrAtPos m x y)
         \<and> TI_ForeAnimTile ti (CA_mapPlanes m 1 (nat (CA_TilePtrAtPos m x y))) \<noteq> 0
      then nat (CA_TilePtrAtPos m x y) # bridge_row_run ti y (x + 1) m
      else [])"
  by pat_completeness auto
termination
  by (relation "measure (\<lambda>(ti, y, x, m). nat (int (mapW m) - x))") auto

declare bridge_row_run.simps [simp del]

definition bridge_row_oob :: "tile_info \<Rightarrow> int \<Rightarrow> int \<Rightarrow> CA_map \<Rightarrow> bool" where
  "bridge_row_oob ti y x m =
     (let n = x + int (length (bridge_row_run ti y x m))
      in n < int (mapW m) \<and> \<not> CA_inPlane m (CA_TilePtrAtPos m n y))"

definition bridge_region :: "tile_info \<Rightarrow> CK_object \<Rightarrow> bool \<Rightarrow> CA_map \<Rightarrow> nat list" where
  "bridge_region ti obj dir m =
     (case CK6_switch_tiles ti obj dir m of
        Inl e \<Rightarrow> []
      | Inr (destX, destY, m1) \<Rightarrow>
          bridge_row_run ti destY destX m1 @ bridge_row_run ti (destY + 1) (destX - 1) m1)"

text \<open>
  The property of the animation offsets that the round trip of a bridge needs: for the
  foreground tile of the level at every index in \<open>A\<close>, the offset of the tile and the
  offset of its animated counterpart add up to zero. \<open>flipped ti m S\<close> is the level \<open>m\<close>
  with the foreground tiles at the indices in \<open>S\<close> replaced by their animated
  counterparts.
\<close>

definition anim_involutive :: "tile_info \<Rightarrow> CA_map \<Rightarrow> nat set \<Rightarrow> bool" where
  "anim_involutive ti m A =
     (\<forall>i \<in> A. TI_ForeAnimTile ti (CA_mapPlanes m 1 i) + TI_ForeAnimTile ti (TI_animated ti (CA_mapPlanes m 1 i)) = 0)"

definition flipped :: "tile_info \<Rightarrow> CA_map \<Rightarrow> nat set \<Rightarrow> CA_map" where
  "flipped ti m S =
     m\<lparr>CA_mapPlanes := (CA_mapPlanes m)
          (1 := (\<lambda>i. if i \<in> S then TI_animated ti (CA_mapPlanes m 1 i) else CA_mapPlanes m 1 i))\<rparr>"

text \<open>The foreground tile at an index of the level that a computation returns.\<close>

definition fg_tile :: "error + CA_map \<Rightarrow> nat \<Rightarrow> error + 16 word" where
  "fg_tile r i = (case r of Inl e \<Rightarrow> Inl e | Inr m \<Rightarrow> Inr (CA_mapPlanes m 1 i))"

text \<open>
  A level for concrete runs, eight tiles wide and four high. The switch is the block of
  tiles 200 at \<open>(1, 0)\<close>, its info tile at \<open>(2, 1)\<close> names the destination \<open>(4, 2)\<close>; the bridge
  is the tiles 100 at \<open>(4, 2)\<close>, \<open>(5, 2)\<close>, \<open>(6, 2)\<close> and at \<open>(3, 3)\<close>, \<open>(4, 3)\<close>. The tiles 100
  and 101 are each other's animated counterparts and have the misc flag of a bridge. The
  tiles of the switch are not each other's counterparts: 200 turns into 201, and 201
  into 202.
\<close>

definition ti_demo :: tile_info where
  "ti_demo =
     \<lparr>TI_ForeAnimTile = (\<lambda>t. if t = 100 \<or> t = 200 \<or> t = 201 then 1 else if t = 101 then - 1 else 0),
      TI_ForeMisc = (\<lambda>t. if t = 100 \<or> t = 101 then 18 else 0),
      MISCFLAG_DEADLY = 3, MISCFLAG_BRIDGE = 18, MISCFLAG_ACTIVEZAPPER = 19, MISCFLAG_INACTIVEZAPPER = 30\<rparr>"

definition sw_fg :: "nat \<Rightarrow> 16 word" where
  "sw_fg i = (if i \<in> {1, 2, 9, 10, 17, 18} then 200 else if i \<in> {20, 21, 22, 27, 28} then 100 else 0)"

definition sw_info :: "nat \<Rightarrow> 16 word" where
  "sw_info i = (if i = 10 then 0x0402 else 0)"

definition sw_map :: CA_map where
  "sw_map = \<lparr>mapW = 8, mapH = 4, CA_mapPlanes = (\<lambda>plane. if plane = 1 then sw_fg else if plane = 2 then sw_info else (\<lambda>i. 0))\<rparr>"

definition sw_obj :: CK_object where
  "sw_obj = CK_object_zero\<lparr>clipRects := (clipRects CK_object_zero)\<lparr>tileX1 := 1, tileY2 := 0\<rparr>\<rparr>"

text \<open>
  The same tile info, but the animated counterpart 101 of the bridge tile 100 does not
  have the misc flag of a bridge.
\<close>

definition ti_stuck :: tile_info where
  "ti_stuck = ti_demo\<lparr>TI_ForeMisc := (\<lambda>t. if t = 100 then 18 else 0)\<rparr>"

text \<open>
  The level of the concrete runs after one toggle (the switch and the bridge are turned)
  and after two toggles with the tile info \<open>ti_demo\<close> (the switch is turned twice, the
  bridge is as it was).
\<close>

definition sw_fg_on :: "nat \<Rightarrow> 16 word" where
  "sw_fg_on i = (if i \<in> {1, 2, 9, 10, 17, 18} then 201 else if i \<in> {20, 21, 22, 27, 28} then 101 else 0)"

definition sw_map_on :: CA_map where
  "sw_map_on = sw_map\<lparr>CA_mapPlanes := (\<lambda>plane. if plane = 1 then sw_fg_on else if plane = 2 then sw_info else (\<lambda>i. 0))\<rparr>"

definition sw_fg_off :: "nat \<Rightarrow> 16 word" where
  "sw_fg_off i = (if i \<in> {1, 2, 9, 10, 17, 18} then 202 else if i \<in> {20, 21, 22, 27, 28} then 100 else 0)"

definition sw_map_off :: CA_map where
  "sw_map_off = sw_map\<lparr>CA_mapPlanes := (\<lambda>plane. if plane = 1 then sw_fg_off else if plane = 2 then sw_info else (\<lambda>i. 0))\<rparr>"
section \<open>Properties\<close>

subsection \<open>Computations that can fail\<close>

lemma bind_err_simps:
  "bind_err (Inl e) f = Inl e" "bind_err (Inr v) f = f v"
  by (simp_all add: bind_err_def)

subsection \<open>Galaxy explosion\<close>

lemma GalExplode_star_eq:
  "GalExplode_star i (info, scr) =
     (info\<lparr>gal_x := (gal_x info)(i := gal_next_x info i), gal_y := (gal_y info)(i := gal_next_y info i)\<rparr>,
      if gal_plotted info i then scr(gal_pixel info i := 0xF) else scr)"
  by (auto simp: GalExplode_star_def Let_def gal_next_x_def gal_next_y_def gal_plotted_def gal_pixel_def VH_Plot_def)

lemma gal_frame:
  "j \<noteq> n \<Longrightarrow> gal_next_x (info\<lparr>gal_x := (gal_x info)(n := a), gal_y := (gal_y info)(n := b)\<rparr>) j = gal_next_x info j"
  "j \<noteq> n \<Longrightarrow> gal_next_y (info\<lparr>gal_x := (gal_x info)(n := a), gal_y := (gal_y info)(n := b)\<rparr>) j = gal_next_y info j"
  "j \<noteq> n \<Longrightarrow> gal_plotted (info\<lparr>gal_x := (gal_x info)(n := a), gal_y := (gal_y info)(n := b)\<rparr>) j = gal_plotted info j"
  "j \<noteq> n \<Longrightarrow> gal_pixel (info\<lparr>gal_x := (gal_x info)(n := a), gal_y := (gal_y info)(n := b)\<rparr>) j = gal_pixel info j"
  by (simp_all add: gal_next_x_def gal_next_y_def gal_plotted_def gal_pixel_def)

lemma GalExplode_loop_eq:
  "GalExplode_loop n (info, scr) =
     (info\<lparr>gal_x := (\<lambda>j. if j < n then gal_next_x info j else gal_x info j),
            gal_y := (\<lambda>j. if j < n then gal_next_y info j else gal_y info j)\<rparr>,
      (\<lambda>p. if \<exists>j<n. gal_plotted info j \<and> p = gal_pixel info j then 0xF else scr p))"
proof (induction n arbitrary: info scr)
  case 0
  show ?case by simp
next
  case (Suc n)
  define info1 where "info1 = info\<lparr>gal_x := (gal_x info)(n := gal_next_x info n), gal_y := (gal_y info)(n := gal_next_y info n)\<rparr>"
  define scr1 where "scr1 = (if gal_plotted info n then scr(gal_pixel info n := 0xF) else scr)"
  have step: "GalExplode_loop (Suc n) (info, scr) = GalExplode_loop n (info1, scr1)"
    by (simp add: GalExplode_star_eq info1_def scr1_def)
  have ex: "(\<exists>j<n. gal_plotted info1 j \<and> p = gal_pixel info1 j)
      \<longleftrightarrow> (\<exists>j<n. gal_plotted info j \<and> p = gal_pixel info j)" for p
    unfolding info1_def using gal_frame(3,4) [of _ n info] by (metis nat_neq_iff)
  have xs: "(\<lambda>j. if j < n then gal_next_x info1 j else gal_x info1 j)
      = (\<lambda>j. if j < Suc n then gal_next_x info j else gal_x info j)"
    unfolding info1_def by (rule ext) (simp add: gal_frame less_Suc_eq)
  have ys: "(\<lambda>j. if j < n then gal_next_y info1 j else gal_y info1 j)
      = (\<lambda>j. if j < Suc n then gal_next_y info j else gal_y info j)"
    unfolding info1_def by (rule ext) (simp add: gal_frame less_Suc_eq)
  have sc: "(\<lambda>p. if \<exists>j<n. gal_plotted info1 j \<and> p = gal_pixel info1 j then 0xF else scr1 p)
      = (\<lambda>p. if \<exists>j<Suc n. gal_plotted info j \<and> p = gal_pixel info j then (0xF::int) else scr p)"
    unfolding ex scr1_def by (rule ext) (auto simp: less_Suc_eq)
  have rec: "info1\<lparr>gal_x := f, gal_y := g\<rparr> = info\<lparr>gal_x := f, gal_y := g\<rparr>" for f g
    by (simp add: info1_def)
  show ?case
    unfolding step Suc.IH xs ys sc rec ..
qed


lemma gal_demo_newPos:
  "gal_newPos (gal_x gal_demo j) (gal_dx gal_demo j) = (if j = 0 then 41000 else 1408)"
  "gal_newPos (gal_y gal_demo j) (gal_dy gal_demo j) = 256"
  by (simp_all add: gal_demo_def gal_newPos_def)

lemma gal_demo_pixel: "gal_plotted gal_demo j \<Longrightarrow> gal_pixel gal_demo j = (11, 2)"
  by (simp add: gal_plotted_def gal_pixel_def gal_demo_newPos split: if_splits)

lemma gal_demo_plotted: "gal_plotted gal_demo j \<longleftrightarrow> j \<noteq> 0"
  by (simp add: gal_plotted_def gal_demo_newPos)

text \<open>
  Claim C2, as amended. One call of \<open>CK_GalExplodeUpdateCoords\<close>, for every star \<open>i\<close> of the
  4000: when the next \<open>x\<close> is beyond \<open>320 * 0x80\<close>, neither coordinate is written; when the
  next \<open>x\<close> is within the bound and the next \<open>y\<close> is beyond \<open>200 * 0x80\<close>, \<open>x\<close> is written and
  \<open>y\<close> is not; otherwise both are written. The buffer, blanked at the start of the call,
  has colour \<open>0xF\<close> exactly at the pixels of the stars whose two new coordinates are both
  within the bounds: a star that is clipped is not plotted in that call.
\<close>

theorem C2_clipped_star:
  assumes "CK_GalExplodeUpdateCoords offset (info, scr) = (info', scr')" and "i < 4000"
  shows "(let nx = gal_newPos (gal_x info i) (gal_dx info i); ny = gal_newPos (gal_y info i) (gal_dy info i) in
           (uint nx > 320 * 0x80 \<longrightarrow> gal_x info' i = gal_x info i \<and> gal_y info' i = gal_y info i) \<and>
           (uint nx \<le> 320 * 0x80 \<and> uint ny > 200 * 0x80 \<longrightarrow> gal_x info' i = nx \<and> gal_y info' i = gal_y info i) \<and>
           (uint nx \<le> 320 * 0x80 \<and> uint ny \<le> 200 * 0x80 \<longrightarrow> gal_x info' i = nx \<and> gal_y info' i = ny)) \<and>
         (\<forall>p. scr' p = (if \<exists>j<4000. gal_plotted info j \<and> p = gal_pixel info j then 0xF
                          else VH_Bar 0 0 320 200 0 scr p))"
proof -
  have "(info', scr') = GalExplode_loop 4000 (info, VH_Bar 0 0 320 200 0 scr)"
    using assms(1) by (simp add: CK_GalExplodeUpdateCoords_def)
  then have i: "info' = info\<lparr>gal_x := (\<lambda>j. if j < 4000 then gal_next_x info j else gal_x info j),
            gal_y := (\<lambda>j. if j < 4000 then gal_next_y info j else gal_y info j)\<rparr>"
    and s: "scr' = (\<lambda>p. if \<exists>j<4000. gal_plotted info j \<and> p = gal_pixel info j then 0xF else VH_Bar 0 0 320 200 0 scr p)"
    unfolding GalExplode_loop_eq by simp_all
  have x: "gal_x info' i = gal_next_x info i" and y: "gal_y info' i = gal_next_y info i"
    using assms(2) by (simp_all add: i)
  show ?thesis
    unfolding x y by (simp add: s Let_def gal_next_x_def gal_next_y_def gal_plotted_def)
qed

theorem C2_clipped_star_witness:
  "(0::nat) < 4000 \<and> uint (gal_newPos (gal_x gal_demo 0) (gal_dx gal_demo 0)) > 320 * 0x80 \<and>
   gal_x (fst (CK_GalExplodeUpdateCoords 0 (gal_demo, scr_lit))) 0 = 40900 \<and>
   gal_y (fst (CK_GalExplodeUpdateCoords 0 (gal_demo, scr_lit))) 0 = 256 \<and>
   snd (CK_GalExplodeUpdateCoords 0 (gal_demo, scr_lit)) (319, 2) = 0 \<and>
   snd (CK_GalExplodeUpdateCoords 0 (gal_demo, scr_lit)) (11, 2) = 0xF"
proof -
  have eq: "CK_GalExplodeUpdateCoords 0 (gal_demo, scr_lit)
      = (fst (CK_GalExplodeUpdateCoords 0 (gal_demo, scr_lit)), snd (CK_GalExplodeUpdateCoords 0 (gal_demo, scr_lit)))"
    by simp
  have lt: "(0::nat) < 4000" by simp
  note t = C2_clipped_star [OF eq lt]
  have a: "\<not> (\<exists>j<4000. gal_plotted gal_demo j \<and> (319, 2) = gal_pixel gal_demo j)"
    using gal_demo_pixel by fastforce
  have b: "\<exists>j<4000. gal_plotted gal_demo j \<and> (11, 2) = gal_pixel gal_demo j"
    by (rule exI [of _ 1]) (simp add: gal_demo_plotted gal_demo_pixel)
  have g: "gal_x gal_demo 0 = 40900" "gal_y gal_demo 0 = 256"
    "gal_newPos 40900 (gal_dx gal_demo 0) = 41000" "gal_newPos 256 (gal_dy gal_demo 0) = 256"
    by (simp_all add: gal_demo_def gal_newPos_def)
  show ?thesis
    using t a b by (simp add: Let_def g VH_Bar_def)
qed

text \<open>
  Claim C2, as stated, fails: star 0 of \<open>gal_demo\<close> would leave the bound in \<open>x\<close>, and after
  the call the pixel of its last position is not lit, although it was lit before.
\<close>

theorem C2_counterexample:
  "uint (gal_newPos (gal_x gal_demo 0) (gal_dx gal_demo 0)) > 320 * 0x80 \<and>
   snd (CK_GalExplodeUpdateCoords 0 (gal_demo, scr_lit))
     (uint (gal_x gal_demo 0) div 0x80, uint (gal_y gal_demo 0) div 0x80) \<noteq> 0xF"
proof -
  have a: "\<not> (\<exists>j<4000. gal_plotted gal_demo j \<and> (319, 2) = gal_pixel gal_demo j)"
    using gal_demo_pixel by fastforce
  have g: "gal_x gal_demo 0 = 40900" "gal_y gal_demo 0 = 256"
    "gal_newPos 40900 (gal_dx gal_demo 0) = 41000" "gal_newPos 256 (gal_dy gal_demo 0) = 256"
    by (simp_all add: gal_demo_def gal_newPos_def)
  show ?thesis
    using a by (simp add: CK_GalExplodeUpdateCoords_def GalExplode_loop_eq g VH_Bar_def)
qed

subsection \<open>Enemy shots\<close>

text \<open>
  Claim C10. \<open>CK5_SpawnEnemyShot\<close> on a well-formed pool, with a \<open>CK_SetAction\<close> that leaves
  the type and the activity state of an object alone: when no slot is free it returns the
  null handle and the pool is unchanged; when a slot \<open>h\<close> is free and the new shot is stuck
  in a wall it returns the null handle, the live list is the one before the call and \<open>h\<close>
  is free again; otherwise it returns \<open>h\<close>, which is now live and was not before, and the
  object in that slot has the type \<open>CT5_EnemyShot\<close> and the activity state
  \<open>OBJ_EXISTS_ONLY_ONSCREEN\<close>.
\<close>

theorem C10_SpawnEnemyShot:
  assumes wf: "pool_wf pool"
    and act: "\<forall>obj a. type (CK_SetAction obj a) = type obj \<and> active (CK_SetAction obj a) = active obj"
    and res: "CK5_SpawnEnemyShot CT5_EnemyShot CK_SetAction CK_NotStuckInWall x y action pool = (r, pool')"
  shows "(freeObjs pool = [] \<longrightarrow> r = None \<and> pool' = pool) \<and>
         (\<forall>h fs. freeObjs pool = h # fs \<longrightarrow>
            (let shot = CK5_EnemyShot_init CT5_EnemyShot CK_SetAction x y action CK_object_zero in
               (\<not> CK_NotStuckInWall shot \<longrightarrow>
                  r = None \<and> liveObjs pool' = liveObjs pool \<and> freeObjs pool' = freeObjs pool) \<and>
               (CK_NotStuckInWall shot \<longrightarrow>
                  r = Some h \<and> liveObjs pool' = liveObjs pool @ [h] \<and> h \<notin> set (liveObjs pool) \<and>
                  freeObjs pool' = fs \<and> objArray pool' h = shot \<and>
                  type (objArray pool' h) = CT5_EnemyShot \<and>
                  active (objArray pool' h) = OBJ_EXISTS_ONLY_ONSCREEN)))"
proof (cases "freeObjs pool")
  case Nil
  then show ?thesis
    using res by (simp add: CK5_SpawnEnemyShot_def CK_GetNewObj_def)
next
  case (Cons h fs)
  have notin: "h \<notin> set (liveObjs pool)"
    using wf Cons by (auto simp: pool_wf_def)
  have ty: "type (CK5_EnemyShot_init CT5_EnemyShot CK_SetAction x y action obj) = CT5_EnemyShot"
    and ac: "active (CK5_EnemyShot_init CT5_EnemyShot CK_SetAction x y action obj) = OBJ_EXISTS_ONLY_ONSCREEN" for obj
    using act by (simp_all add: CK5_EnemyShot_init_def)
  show ?thesis
    using res Cons notin
    by (auto simp: CK5_SpawnEnemyShot_def CK_GetNewObj_def Let_def CK_RemoveObj_def ty ac)
qed

theorem C10_SpawnEnemyShot_witness:
  "pool_wf pool_demo \<and>
   CK5_SpawnEnemyShot 4 SetAction_demo NotStuck_demo 5 7 ''shot'' pool_demo
     = (Some 2, pool_demo\<lparr>objArray := (objArray pool_demo)(2 := CK5_EnemyShot_init 4 SetAction_demo 5 7 ''shot'' CK_object_zero),
                          liveObjs := [0, 1, 2], freeObjs := [3]\<rparr>) \<and>
   type (objArray (snd (CK5_SpawnEnemyShot 4 SetAction_demo NotStuck_demo 5 7 ''shot'' pool_demo)) 2) = 4 \<and>
   active (objArray (snd (CK5_SpawnEnemyShot 4 SetAction_demo NotStuck_demo 5 7 ''shot'' pool_demo)) 2) = OBJ_EXISTS_ONLY_ONSCREEN \<and>
   fst (CK5_SpawnEnemyShot 4 SetAction_demo NotStuck_demo (- 5) 7 ''shot'' pool_demo) = None \<and>
   liveObjs (snd (CK5_SpawnEnemyShot 4 SetAction_demo NotStuck_demo (- 5) 7 ''shot'' pool_demo)) = [0, 1] \<and>
   CK5_SpawnEnemyShot 4 SetAction_demo NotStuck_demo 5 7 ''shot'' (pool_demo\<lparr>freeObjs := []\<rparr>)
     = (None, pool_demo\<lparr>freeObjs := []\<rparr>)"
proof -
  have wf: "pool_wf pool_demo" "pool_wf (pool_demo\<lparr>freeObjs := []\<rparr>)"
    by (simp_all add: pool_wf_def pool_demo_def)
  have act: "\<forall>obj a. type (SetAction_demo obj a) = type obj \<and> active (SetAction_demo obj a) = active obj"
    by (simp add: SetAction_demo_def)
  have fr: "freeObjs pool_demo = 2 # [3]" "liveObjs pool_demo = [0, 1]"
    by (simp_all add: pool_demo_def)
  have ok: "NotStuck_demo (CK5_EnemyShot_init 4 SetAction_demo 5 7 ''shot'' CK_object_zero)"
    and stuck: "\<not> NotStuck_demo (CK5_EnemyShot_init 4 SetAction_demo (- 5) 7 ''shot'' CK_object_zero)"
    by (simp_all add: NotStuck_demo_def CK5_EnemyShot_init_def SetAction_demo_def)
  have e: "f p = (fst (f p), snd (f p))" for f :: "CK_pool \<Rightarrow> nat option \<times> CK_pool" and p
    by simp
  note t1 = C10_SpawnEnemyShot [OF wf(1) act e [of "CK5_SpawnEnemyShot 4 SetAction_demo NotStuck_demo 5 7 ''shot''"]]
  note t2 = C10_SpawnEnemyShot [OF wf(1) act e [of "CK5_SpawnEnemyShot 4 SetAction_demo NotStuck_demo (- 5) 7 ''shot''"]]
  note t3 = C10_SpawnEnemyShot [OF wf(2) act e [of "CK5_SpawnEnemyShot 4 SetAction_demo NotStuck_demo 5 7 ''shot''"]]
  have r1: "CK5_SpawnEnemyShot 4 SetAction_demo NotStuck_demo 5 7 ''shot'' pool_demo
     = (Some 2, pool_demo\<lparr>objArray := (objArray pool_demo)(2 := CK5_EnemyShot_init 4 SetAction_demo 5 7 ''shot'' CK_object_zero),
                          liveObjs := [0, 1, 2], freeObjs := [3]\<rparr>)"
    using ok by (simp add: CK5_SpawnEnemyShot_def CK_GetNewObj_def pool_demo_def Let_def)
  show ?thesis
    using t1 t2 t3 fr ok stuck wf(1) r1 by (simp add: Let_def prod_eq_iff)
qed

subsection \<open>Presence of the game files\<close>

text \<open>
  A lookup changes the number of open descriptors only; its result is \<open>FS_lookup\<close>.
\<close>

lemma FSL_readdir_loop_eq:
  "fst (FSL_readdir_loop cmp entries fileName s) = FS_lookup cmp entries fileName \<and>
   ck6_episode (snd (FSL_readdir_loop cmp entries fileName s)) = ck6_episode s \<and>
   fs_stdout (snd (FSL_readdir_loop cmp entries fileName s)) = fs_stdout s"
  by (induction entries) simp_all

lemma FSL_Open_eq:
  "\<exists>s'. FSL_OpenFileInDirCaseInsensitive cmp (Some entries) fileName s = Inr (FS_lookup cmp entries fileName, s')
      \<and> ck6_episode s' = ck6_episode s \<and> fs_stdout s' = fs_stdout s"
  using FSL_readdir_loop_eq [of cmp entries fileName "s\<lparr>fs_descriptors := fs_descriptors s + 1\<rparr>"]
  by (simp add: FSL_OpenFileInDirCaseInsensitive_def prod_eq_iff)

lemma FS_IsKeenFilePresent_eq:
  assumes "fs_keenPath fs \<noteq> None"
  shows "\<exists>s'. FS_IsKeenFilePresent cmp fs fileName s = Inr (keen_present cmp fs fileName, s')
      \<and> ck6_episode s' = ck6_episode s \<and> fs_stdout s' = fs_stdout s"
proof -
  from assms obtain kd where kd: "fs_keenPath fs = Some kd" by auto
  obtain s1 where s1: "FSL_OpenFileInDirCaseInsensitive cmp (Some kd) fileName s = Inr (FS_lookup cmp kd fileName, s1)"
    "ck6_episode s1 = ck6_episode s" "fs_stdout s1 = fs_stdout s"
    using FSL_Open_eq by blast
  show ?thesis
    by (cases "FS_lookup cmp kd fileName")
       (simp_all add: FS_IsKeenFilePresent_def FS_OpenKeenFile_def kd s1 bind_err_simps
          keen_present_def FS_in_dir_def FS_CloseFile_def)
qed

lemma FS_IsOmniFilePresent_eq:
  assumes "fs_keenPath fs \<noteq> None" and "fs_omniPath fs \<noteq> None"
  shows "\<exists>s'. FS_IsOmniFilePresent cmp fs fileName s = Inr (omni_present cmp fs fileName, s')
      \<and> ck6_episode s' = ck6_episode s \<and> fs_stdout s' = fs_stdout s"
proof -
  from assms obtain kd od where kd: "fs_keenPath fs = Some kd" and od: "fs_omniPath fs = Some od" by auto
  obtain s1 where s1: "FSL_OpenFileInDirCaseInsensitive cmp (Some kd) fileName s = Inr (FS_lookup cmp kd fileName, s1)"
    "ck6_episode s1 = ck6_episode s" "fs_stdout s1 = fs_stdout s"
    using FSL_Open_eq by blast
  obtain s2 where s2: "FSL_OpenFileInDirCaseInsensitive cmp (Some od) fileName s1 = Inr (FS_lookup cmp od fileName, s2)"
    "ck6_episode s2 = ck6_episode s1" "fs_stdout s2 = fs_stdout s1"
    using FSL_Open_eq by blast
  show ?thesis
  proof (cases "FS_lookup cmp kd fileName")
    case (Some f)
    then show ?thesis
      by (simp add: FS_IsOmniFilePresent_def FS_OpenOmniFile_def kd od s1 bind_err_simps
          omni_present_def FS_in_dir_def FS_CloseFile_def)
  next
    case None
    then show ?thesis
      by (cases "FS_lookup cmp od fileName")
         (simp_all add: FS_IsOmniFilePresent_def FS_OpenOmniFile_def kd od s1 s2 bind_err_simps
            omni_present_def FS_in_dir_def FS_CloseFile_def)
  qed
qed

text \<open>A sequence of tests.\<close>

lemma all_required_eq:
  assumes "\<And>f s. f \<in> set names \<Longrightarrow>
      \<exists>s'. test f s = Inr (P f, s') \<and> ck6_episode s' = ck6_episode s \<and> fs_stdout s' = fs_stdout s"
  shows "\<exists>s'. all_required (map test names) s = Inr (\<forall>f \<in> set names. P f, s')
      \<and> ck6_episode s' = ck6_episode s \<and> fs_stdout s' = fs_stdout s"
  using assms
proof (induction names arbitrary: s)
  case Nil
  show ?case by simp
next
  case (Cons f names)
  obtain s1 where s1: "test f s = Inr (P f, s1)" "ck6_episode s1 = ck6_episode s" "fs_stdout s1 = fs_stdout s"
    using Cons.prems [of f s] by auto
  show ?case
  proof (cases "P f")
    case False
    then show ?thesis
      by (simp add: require_def s1 bind_err_simps)
  next
    case True
    obtain s2 where "all_required (map test names) s1 = Inr (\<forall>f \<in> set names. P f, s2)"
      "ck6_episode s2 = ck6_episode s1" "fs_stdout s2 = fs_stdout s1"
      using Cons.IH [of s1] Cons.prems by auto
    then show ?thesis
      using True by (simp add: require_def s1 bind_err_simps)
  qed
qed


lemma CK5_IsPresent_list:
  "CK5_IsPresent cmp fs s =
     require (all_required (map (FS_IsKeenFilePresent cmp fs) CK5_keenFiles))
       (all_required (map (FS_IsOmniFilePresent cmp fs) CK5_omniFiles)) s"
proof -
  have r: "require (require a b) c = require a (require b c)" for a b c
    by (auto simp: require_def bind_err_def fun_eq_iff split: sum.splits)
  have e: "require (\<lambda>s. Inr (True, s)) c = c" for c
    by (simp add: require_def bind_err_def fun_eq_iff)
  have c: "all_required (t # ts) = require t (all_required ts)" "all_required [] = (\<lambda>s. Inr (True, s))" for t ts
    by (simp_all add: fun_eq_iff)
  show ?thesis
    by (simp add: CK5_IsPresent_def CK5_keenFiles_def CK5_omniFiles_def c r e)
qed

lemma CK6_IsPresent_list:
  "CK6_IsPresent cmp fs s =
     require (all_required (map (FS_IsKeenFilePresent cmp fs) CK6_keenFiles))
       (\<lambda>s. bind_err (FS_OpenKeenFile cmp fs ''EGAGRAPH.CK6'' s)
          (\<lambda>(egaGraph, s1).
             case egaGraph of
               None \<Rightarrow> Inl NullPointer
             | Some file \<Rightarrow>
                 (let (egaGraphSize, s2) = FS_GetFileSize file s1;
                      s3 = FS_CloseFile file s2;
                      s4 = (if egaGraphSize = 464662 then s3\<lparr>ck6_episode := Some ck6v15e_episode\<rparr>
                            else s3\<lparr>ck6_episode := Some ck6v14e_episode\<rparr>)
                  in all_required (map (FS_IsOmniFilePresent cmp fs) CK6_omniFiles) s4))) s"
proof -
  have r: "require (require a b) c = require a (require b c)" for a b c
    by (auto simp: require_def bind_err_def fun_eq_iff split: sum.splits)
  have e: "require (\<lambda>s. Inr (True, s)) c = c" for c
    by (simp add: require_def bind_err_def fun_eq_iff)
  have c: "all_required (t # ts) = require t (all_required ts)" "all_required [] = (\<lambda>s. Inr (True, s))" for t ts
    by (simp_all add: fun_eq_iff)
  show ?thesis
    unfolding CK6_IsPresent_def CK6_keenFiles_def CK6_omniFiles_def list.map c r e ..
qed

lemma keen_tests:
  assumes "fs_keenPath fs \<noteq> None"
  shows "\<exists>s'. all_required (map (FS_IsKeenFilePresent cmp fs) names) s
        = Inr (\<forall>f \<in> set names. keen_present cmp fs f, s')
      \<and> ck6_episode s' = ck6_episode s \<and> fs_stdout s' = fs_stdout s"
  by (rule all_required_eq) (rule FS_IsKeenFilePresent_eq [OF assms])

lemma omni_tests:
  assumes "fs_keenPath fs \<noteq> None" and "fs_omniPath fs \<noteq> None"
  shows "\<exists>s'. all_required (map (FS_IsOmniFilePresent cmp fs) names) s
        = Inr (\<forall>f \<in> set names. omni_present cmp fs f, s')
      \<and> ck6_episode s' = ck6_episode s \<and> fs_stdout s' = fs_stdout s"
  by (rule all_required_eq) (rule FS_IsOmniFilePresent_eq [OF assms])

lemma CK5_IsPresent_eq:
  assumes "fs_keenPath fs \<noteq> None" and "fs_omniPath fs \<noteq> None"
  shows "\<exists>s'. CK5_IsPresent cmp fs s =
        Inr ((\<forall>f \<in> set CK5_keenFiles. keen_present cmp fs f) \<and>
             (\<forall>f \<in> set CK5_omniFiles. omni_present cmp fs f), s')
      \<and> ck6_episode s' = ck6_episode s \<and> fs_stdout s' = fs_stdout s"
proof -
  obtain s1 where s1: "all_required (map (FS_IsKeenFilePresent cmp fs) CK5_keenFiles) s
        = Inr (\<forall>f \<in> set CK5_keenFiles. keen_present cmp fs f, s1)"
    "ck6_episode s1 = ck6_episode s" "fs_stdout s1 = fs_stdout s"
    using keen_tests [OF assms(1)] by blast
  obtain s2 where s2: "all_required (map (FS_IsOmniFilePresent cmp fs) CK5_omniFiles) s1
        = Inr (\<forall>f \<in> set CK5_omniFiles. omni_present cmp fs f, s2)"
    "ck6_episode s2 = ck6_episode s1" "fs_stdout s2 = fs_stdout s1"
    using omni_tests [OF assms] by blast
  show ?thesis
    unfolding CK5_IsPresent_list
    by (cases "\<forall>f \<in> set CK5_keenFiles. keen_present cmp fs f")
       (simp_all only: require_def s1 s2 bind_err_simps split_conv simp_thms if_True if_False, simp_all add: s1 s2)
qed

lemma CK6_IsPresent_eq:
  assumes "fs_keenPath fs \<noteq> None" and "fs_omniPath fs \<noteq> None"
  shows "\<exists>s'. CK6_IsPresent cmp fs s =
        Inr ((\<forall>f \<in> set CK6_keenFiles. keen_present cmp fs f) \<and>
             (\<forall>f \<in> set CK6_omniFiles. omni_present cmp fs f), s')
      \<and> ck6_episode s' = (if \<forall>f \<in> set CK6_keenFiles. keen_present cmp fs f
                           then Some (CK6_selected cmp fs) else ck6_episode s)"
proof -
  from assms obtain kd where kd: "fs_keenPath fs = Some kd" by auto
  obtain s1 where s1: "all_required (map (FS_IsKeenFilePresent cmp fs) CK6_keenFiles) s
        = Inr (\<forall>f \<in> set CK6_keenFiles. keen_present cmp fs f, s1)"
    "ck6_episode s1 = ck6_episode s"
    using keen_tests [OF assms(1)] by blast
  show ?thesis
  proof (cases "\<forall>f \<in> set CK6_keenFiles. keen_present cmp fs f")
    case False
    then show ?thesis
      unfolding CK6_IsPresent_list
      by (simp_all only: require_def s1 bind_err_simps split_conv simp_thms if_True if_False, simp add: s1)
  next
    case True
    then have "keen_present cmp fs ''EGAGRAPH.CK6''"
      by (simp add: CK6_keenFiles_def)
    then obtain e where e: "FS_lookup cmp kd ''EGAGRAPH.CK6'' = Some e"
      by (auto simp: keen_present_def FS_in_dir_def kd)
    obtain s2 where s2: "FS_OpenKeenFile cmp fs ''EGAGRAPH.CK6'' s1 = Inr (Some e, s2)"
      using FSL_Open_eq [of cmp kd "''EGAGRAPH.CK6''" s1] by (auto simp: FS_OpenKeenFile_def kd e)
    define s4 where "s4 = (let (egaGraphSize, t2) = FS_GetFileSize e s2;
                      t3 = FS_CloseFile e t2
                  in (if egaGraphSize = 464662 then t3\<lparr>ck6_episode := Some ck6v15e_episode\<rparr>
                            else t3\<lparr>ck6_episode := Some ck6v14e_episode\<rparr>))"
    have sel: "ck6_episode s4 = Some (CK6_selected cmp fs)"
      by (cases "d_size e") (simp_all add: s4_def FS_GetFileSize_def FS_CloseFile_def CK6_selected_def kd e)
    obtain s5 where s5: "all_required (map (FS_IsOmniFilePresent cmp fs) CK6_omniFiles) s4
        = Inr (\<forall>f \<in> set CK6_omniFiles. omni_present cmp fs f, s5)"
      "ck6_episode s5 = ck6_episode s4"
      using omni_tests [OF assms] by blast
    have "CK6_IsPresent cmp fs s = all_required (map (FS_IsOmniFilePresent cmp fs) CK6_omniFiles) s4"
      unfolding CK6_IsPresent_list using True
      by (simp only: require_def s1 s2 bind_err_simps split_conv simp_thms if_True if_False option.case)
         (simp add: s4_def Let_def split_beta)
    then show ?thesis
      using True by (simp add: s5 sel)
  qed
qed

text \<open>
  The two places where the code of the lookup goes wrong are in the model: with a
  directory that cannot be opened both checks follow a null pointer, and a lookup that
  finds no entry of the name leaves the descriptor of the directory open.
\<close>

lemma IsPresent_unopenable:
  assumes "fs_keenPath fs = None"
  shows "CK5_IsPresent cmp fs s = Inl NullPointer" "CK6_IsPresent cmp fs s = Inl NullPointer"
  by (simp_all add: CK5_IsPresent_def CK6_IsPresent_def require_def FS_IsKeenFilePresent_def
        FS_OpenKeenFile_def FSL_OpenFileInDirCaseInsensitive_def assms bind_err_simps)

lemma FS_IsKeenFilePresent_leak:
  assumes "fs_keenPath fs = Some entries" and "\<forall>e \<in> set entries. cmp (d_name e) fileName \<noteq> 0"
  shows "FS_IsKeenFilePresent cmp fs fileName s = Inr (False, s\<lparr>fs_descriptors := fs_descriptors s + 1\<rparr>)"
proof -
  have "FSL_readdir_loop cmp entries fileName t = (None, t)" for t
    using assms(2) by (induction entries) simp_all
  then show ?thesis
    by (simp add: FS_IsKeenFilePresent_def FS_OpenKeenFile_def FSL_OpenFileInDirCaseInsensitive_def
          assms(1) bind_err_simps)
qed


lemma fs_demo_present:
  "keen_present cmp_demo fs_demo ''EGAGRAPH.CK6''" "keen_present cmp_demo fs_demo ''GAMEMAPS.CK6''"
  "keen_present cmp_demo fs_demo ''AUDIO.CK6''"
  "\<not> keen_present cmp_demo fs_demo ''EGAGRAPH.CK5''"
  "\<not> omni_present cmp_demo fs_demo ''EGAHEAD.CK6''"
  "\<not> keen_present cmp_demo (fs_demo\<lparr>fs_keenPath := Some []\<rparr>) ''EGAGRAPH.CK6''"
  "CK6_selected cmp_demo fs_demo = ck6v15e_episode"
  by (simp_all add: keen_present_def omni_present_def FS_in_dir_def CK6_selected_def fs_demo_def cmp_demo_def)

text \<open>
  Claim C3, as amended. When the directories \<^verbatim>\<open>fs_keenPath\<close> and \<^verbatim>\<open>fs_omniPath\<close> can be
  opened, both checks return, and return true exactly when every required file is
  present. \<open>CK5_IsPresent\<close> changes no global variable. \<open>CK6_IsPresent\<close> changes no global
  variable when a user-provided file is absent; when the three user-provided files are
  present it assigns \<open>ck6_episode\<close> (by the size of \<^verbatim>\<open>EGAGRAPH.CK6\<close>), whether or not the
  files of Omnispeak are present. Nothing is said of a directory that cannot be opened
  and of the descriptors that stay open.
\<close>

theorem C3_IsPresent:
  assumes "fs_keenPath fs \<noteq> None" and "fs_omniPath fs \<noteq> None"
  shows "(\<exists>s'. CK5_IsPresent cmp fs s =
              Inr ((\<forall>f \<in> set CK5_keenFiles. keen_present cmp fs f) \<and>
                   (\<forall>f \<in> set CK5_omniFiles. omni_present cmp fs f), s')
            \<and> ck6_episode s' = ck6_episode s) \<and>
         (\<exists>s'. CK6_IsPresent cmp fs s =
              Inr ((\<forall>f \<in> set CK6_keenFiles. keen_present cmp fs f) \<and>
                   (\<forall>f \<in> set CK6_omniFiles. omni_present cmp fs f), s')
            \<and> ck6_episode s' = (if \<forall>f \<in> set CK6_keenFiles. keen_present cmp fs f
                                 then Some (CK6_selected cmp fs) else ck6_episode s))"
  using CK5_IsPresent_eq [OF assms, of cmp s] CK6_IsPresent_eq [OF assms, of cmp s] by blast

theorem C3_IsPresent_witness:
  "fs_keenPath fs_demo \<noteq> None \<and> fs_omniPath fs_demo \<noteq> None \<and>
   (\<exists>s'. CK5_IsPresent cmp_demo fs_demo proc_demo = Inr (False, s') \<and> ck6_episode s' = None) \<and>
   (\<exists>s'. CK6_IsPresent cmp_demo fs_demo proc_demo = Inr (False, s') \<and> ck6_episode s' = Some ck6v15e_episode) \<and>
   (\<exists>s'. CK6_IsPresent cmp_demo (fs_demo\<lparr>fs_keenPath := Some []\<rparr>) proc_demo = Inr (False, s') \<and> ck6_episode s' = None)"
proof -
  have d: "fs_keenPath fs_demo \<noteq> None" "fs_omniPath fs_demo \<noteq> None"
    "fs_keenPath (fs_demo\<lparr>fs_keenPath := Some []\<rparr>) \<noteq> None"
    "fs_omniPath (fs_demo\<lparr>fs_keenPath := Some []\<rparr>) \<noteq> None"
    by (simp_all add: fs_demo_def)
  have a: "\<not> (\<forall>f \<in> set CK5_keenFiles. keen_present cmp_demo fs_demo f)"
    using fs_demo_present by (simp add: CK5_keenFiles_def)
  have b: "\<forall>f \<in> set CK6_keenFiles. keen_present cmp_demo fs_demo f"
    using fs_demo_present by (simp add: CK6_keenFiles_def)
  have c: "\<not> (\<forall>f \<in> set CK6_omniFiles. omni_present cmp_demo fs_demo f)"
    using fs_demo_present by (simp add: CK6_omniFiles_def)
  have e: "\<not> (\<forall>f \<in> set CK6_keenFiles. keen_present cmp_demo (fs_demo\<lparr>fs_keenPath := Some []\<rparr>) f)"
    using fs_demo_present by (simp add: CK6_keenFiles_def)
  show ?thesis
    using C3_IsPresent [OF d(1,2), of cmp_demo proc_demo] C3_IsPresent [OF d(3,4), of cmp_demo proc_demo]
    by (simp add: a b c e d fs_demo_present proc_demo_def)
qed

text \<open>
  Claim C3, as stated, fails for Keen 6: with the user-provided files present and
  \<^verbatim>\<open>EGAHEAD.CK6\<close> absent the check returns false, and \<open>ck6_episode\<close>, null before the
  call, is set after it. (The size of \<^verbatim>\<open>EGAGRAPH.CK6\<close> has been printed, and the two
  lookups of \<^verbatim>\<open>EGAHEAD.CK6\<close> have left two descriptors open.)
\<close>

theorem C3_counterexample:
  "\<not> omni_present cmp_demo fs_demo ''EGAHEAD.CK6'' \<and>
   ck6_episode proc_demo = None \<and>
   CK6_IsPresent cmp_demo fs_demo proc_demo =
     Inr (False, \<lparr>ck6_episode = Some ck6v15e_episode, fs_descriptors = 5, fs_stdout = [464662]\<rparr>)"
  using fs_demo_present(5)
  by (simp add: proc_demo_def CK6_IsPresent_def require_def bind_err_simps
        FS_IsKeenFilePresent_def FS_IsOmniFilePresent_def FS_OpenKeenFile_def FS_OpenOmniFile_def
        FSL_OpenFileInDirCaseInsensitive_def FS_CloseFile_def FS_GetFileSize_def fs_demo_def cmp_demo_def)
subsection \<open>The cases of the info-layer scan\<close>

lemma at_hard_eq: "at_hard d body = (if d < D_Hard then [] else body)"
  by (simp add: at_hard_def at_normal_def)

lemma CK5_cascade_tiles:
  "\<forall>(b, n, h) \<in> set CK5_cascades.
     CK5_tile LS gs x y h = (if difficulty gs < D_Hard then [] else CK5_tile LS gs x y b) \<and>
     CK5_tile LS gs x y n = (if difficulty gs < D_Normal then [] else CK5_tile LS gs x y b) \<and>
     spawn_count (CK5_tile LS gs x y b) = 1"
  apply (simp only: CK5_cascades_def list.set ball_simps split_conv)
  apply (simp add: CK5_tile_def at_hard_eq at_normal_def spawn_count_def)
  done

lemma CK6_cascade_tiles:
  "\<forall>(b, n, h) \<in> set CK6_cascades.
     CK6_tile gs x y h = (if difficulty gs < D_Hard then [] else CK6_tile gs x y b) \<and>
     CK6_tile gs x y n = (if difficulty gs < D_Normal then [] else CK6_tile gs x y b) \<and>
     spawn_count (CK6_tile gs x y b) = 1"
  apply (simp only: CK6_cascades_def list.set ball_simps split_conv)
  apply (simp add: CK6_tile_def at_hard_eq at_normal_def spawn_count_def)
  done

lemma scan_tile_if:
  "tile (gameState w) x y h = (if c then [] else tile (gameState w) x y b) \<Longrightarrow>
   scan_tile tile spawn x y h w = (if c then w else scan_tile tile spawn x y b w)"
  by (simp add: scan_tile_def exec_stmts_def)

text \<open>
  Claim C1, as amended. For every difficulty and every cascade (base code, code gated by
  \<open>D_Normal\<close>, code gated by \<open>D_Hard\<close>) of either scan: a tile with the Hard-gated code
  has no effect at all when the difficulty is below \<open>D_Hard\<close> (the gate leaves the
  switch; it does not run a lower handler), and has exactly the effect of the base code
  when the difficulty is at least \<open>D_Hard\<close>; the base code calls one spawner, once.
\<close>

theorem C1_cascade:
  "(\<forall>(b, n, h) \<in> set CK5_cascades.
      scan_tile (CK5_tile LS) spawn x y h w =
        (if difficulty (gameState w) < D_Hard then w else scan_tile (CK5_tile LS) spawn x y b w) \<and>
      CK5_tile LS (gameState w) x y h = (if difficulty (gameState w) < D_Hard then [] else CK5_tile LS (gameState w) x y b) \<and>
      spawn_count (CK5_tile LS (gameState w) x y b) = 1) \<and>
   (\<forall>(b, n, h) \<in> set CK6_cascades.
      scan_tile CK6_tile spawn x y h w =
        (if difficulty (gameState w) < D_Hard then w else scan_tile CK6_tile spawn x y b w) \<and>
      CK6_tile (gameState w) x y h = (if difficulty (gameState w) < D_Hard then [] else CK6_tile (gameState w) x y b) \<and>
      spawn_count (CK6_tile (gameState w) x y b) = 1)"
proof (intro conjI ballI)
  fix t :: "int \<times> int \<times> int"
  assume t: "t \<in> set CK5_cascades"
  obtain b n h where [simp]: "t = (b, n, h)" by (cases t) auto
  from CK5_cascade_tiles [of LS "gameState w" x y, THEN bspec, OF t]
  have a: "CK5_tile LS (gameState w) x y h = (if difficulty (gameState w) < D_Hard then [] else CK5_tile LS (gameState w) x y b)"
    and c: "spawn_count (CK5_tile LS (gameState w) x y b) = 1"
    by simp_all
  show "case t of (b, n, h) \<Rightarrow>
      scan_tile (CK5_tile LS) spawn x y h w =
        (if difficulty (gameState w) < D_Hard then w else scan_tile (CK5_tile LS) spawn x y b w) \<and>
      CK5_tile LS (gameState w) x y h = (if difficulty (gameState w) < D_Hard then [] else CK5_tile LS (gameState w) x y b) \<and>
      spawn_count (CK5_tile LS (gameState w) x y b) = 1"
    using scan_tile_if [of "CK5_tile LS" w x y h _ b, OF a] a c by simp
next
  fix t :: "int \<times> int \<times> int"
  assume t: "t \<in> set CK6_cascades"
  obtain b n h where [simp]: "t = (b, n, h)" by (cases t) auto
  from CK6_cascade_tiles [of "gameState w" x y, THEN bspec, OF t]
  have a: "CK6_tile (gameState w) x y h = (if difficulty (gameState w) < D_Hard then [] else CK6_tile (gameState w) x y b)"
    and c: "spawn_count (CK6_tile (gameState w) x y b) = 1"
    by simp_all
  show "case t of (b, n, h) \<Rightarrow>
      scan_tile CK6_tile spawn x y h w =
        (if difficulty (gameState w) < D_Hard then w else scan_tile CK6_tile spawn x y b w) \<and>
      CK6_tile (gameState w) x y h = (if difficulty (gameState w) < D_Hard then [] else CK6_tile (gameState w) x y b) \<and>
      spawn_count (CK6_tile (gameState w) x y b) = 1"
    using scan_tile_if [of CK6_tile w x y h _ b, OF a] a c by simp
qed

theorem C1_cascade_witness:
  "(4, 5, 6) \<in> set CK5_cascades \<and>
   scan_tile (CK5_tile 6) spawn_demo 3 4 6 (world_demo D_Normal 1) = world_demo D_Normal 1 \<and>
   CK5_tile 6 (gs_demo D_Normal 1) 3 4 6 = [] \<and>
   CK5_tile 6 (gs_demo D_Hard 1) 3 4 6 = [Spawn ''CK5_SpawnSparky'' [AInt 3, AInt 4], LumpNeeded CK5_Lump_Sparky] \<and>
   (4, 5, 6) \<in> set CK6_cascades \<and>
   CK6_tile (gs_demo D_Easy 1) 3 4 6 = [] \<and>
   CK6_tile (gs_demo D_Hard 1) 3 4 6 = [LumpNeeded CK6_Lump_Bloog, Spawn ''CK6_SpawnBloog'' [AInt 3, AInt 4]]"
proof -
  have m5: "(4, 5, 6) \<in> set CK5_cascades" by (simp add: CK5_cascades_def)
  have m6: "(4, 5, 6) \<in> set CK6_cascades" by (simp add: CK6_cascades_def)
  have g: "gameState (world_demo d l) = gs_demo d l" "difficulty (gs_demo d l) = d" for d l
    by (simp_all add: world_demo_def gs_demo_def)
  have b5: "CK5_tile 6 (gs_demo D_Hard 1) 3 4 4 = [Spawn ''CK5_SpawnSparky'' [AInt 3, AInt 4], LumpNeeded CK5_Lump_Sparky]"
    by (simp add: CK5_tile_def)
  have b6: "CK6_tile (gs_demo D_Hard 1) 3 4 4 = [LumpNeeded CK6_Lump_Bloog, Spawn ''CK6_SpawnBloog'' [AInt 3, AInt 4]]"
    by (simp add: CK6_tile_def)
  note n = C1_cascade [of 6 spawn_demo 3 4 "world_demo D_Normal 1", THEN conjunct1, THEN bspec, OF m5]
  note h = C1_cascade [of 6 spawn_demo 3 4 "world_demo D_Hard 1", THEN conjunct1, THEN bspec, OF m5]
  note e6 = C1_cascade [of 6 spawn_demo 3 4 "world_demo D_Easy 1", THEN conjunct2, THEN bspec, OF m6]
  note h6 = C1_cascade [of 6 spawn_demo 3 4 "world_demo D_Hard 1", THEN conjunct2, THEN bspec, OF m6]
  show ?thesis
    using n h e6 h6 m5 m6 by (simp add: g b5 b6)
qed

text \<open>
  Claim C1, as stated, fails: on \<open>D_Normal\<close> the Hard-gated code 6 of Keen 5 executes
  nothing, while the next lower codes 5 and 4, both eligible on \<open>D_Normal\<close>, spawn a Sparky
  and mark its lump.
\<close>

theorem C1_counterexample:
  "difficulty (gs_demo D_Normal 1) < D_Hard \<and>
   CK5_tile 6 (gs_demo D_Normal 1) 3 4 6 = [] \<and>
   CK5_tile 6 (gs_demo D_Normal 1) 3 4 5 = [Spawn ''CK5_SpawnSparky'' [AInt 3, AInt 4], LumpNeeded CK5_Lump_Sparky] \<and>
   CK5_tile 6 (gs_demo D_Normal 1) 3 4 4 = [Spawn ''CK5_SpawnSparky'' [AInt 3, AInt 4], LumpNeeded CK5_Lump_Sparky]"
  by (simp add: CK5_tile_def gs_demo_def at_hard_eq at_normal_def)

text \<open>
  Claim C5. A tile with the info value 41 in \<open>CK5_ScanInfoLayer\<close>: on level 12 it sets the
  fuse counter to 4, whatever it was, and calls \<open>CK5_QEDSpawn\<close> once; on any other level
  it adds 1 to the fuse counter and leaves the object pool alone (no spawner is called);
  in both cases it sets the flag of \<open>Lump_QEDFuse\<close> and changes no other flag.
\<close>

theorem C5_fuse_tile:
  "CK5_tile LS (gameState w) x y 41 =
     (if currentLevel (gameState w) = 12
      then [FusesSet 4, Spawn ''CK5_QEDSpawn'' [AInt x, AInt y], LumpNeeded CK5_Lump_QEDFuse]
      else [FusesInc, LumpNeeded CK5_Lump_QEDFuse]) \<and>
   (let w' = scan_tile (CK5_tile LS) spawn x y 41 w in
      (if currentLevel (gameState w) = 12
       then fusesRemaining (gameState w') = 4 \<and> objPool w' = spawn ''CK5_QEDSpawn'' [AInt x, AInt y] (objPool w)
       else fusesRemaining (gameState w') = fusesRemaining (gameState w) + 1 \<and> objPool w' = objPool w) \<and>
      lumpsNeeded w' = (lumpsNeeded w)(CK5_Lump_QEDFuse := True))"
  by (simp add: CK5_tile_def scan_tile_def exec_stmts_def Let_def)

subsection \<open>The whole scan\<close>

lemma bind_err_Inr: "bind_err r f = Inr v \<longleftrightarrow> (\<exists>u. r = Inr u \<and> f u = Inr v)"
  by (cases r) (simp_all add: bind_err_def)

lemma fold_err_inv:
  assumes "fold_err f xs s = Inr s'" and "P s"
    and "\<And>a t t'. a \<in> set xs \<Longrightarrow> P t \<Longrightarrow> f a t = Inr t' \<Longrightarrow> P t'"
  shows "P s'"
  using assms
proof (induction xs arbitrary: s)
  case Nil
  then show ?case by simp
next
  case (Cons a xs)
  from Cons.prems(1) obtain t where t: "f a s = Inr t" and r: "fold_err f xs t = Inr s'"
    by (auto simp: bind_err_Inr)
  have "P t" using Cons.prems(2,3) t by auto
  then show ?case using Cons.IH [OF r] Cons.prems(3) by auto
qed

lemma fold_err_total:
  assumes "Q s" and "\<And>a t. a \<in> set xs \<Longrightarrow> Q t \<Longrightarrow> \<exists>t'. f a t = Inr t' \<and> Q t'"
  shows "\<exists>s'. fold_err f xs s = Inr s' \<and> Q s'"
  using assms
proof (induction xs arbitrary: s)
  case Nil
  then show ?case by simp
next
  case (Cons a xs)
  from Cons.prems obtain t where t: "f a s = Inr t" "Q t"
    by (meson list.set_intros(1))
  have "\<exists>s'. fold_err f xs t = Inr s' \<and> Q s'"
    using Cons.IH [OF t(2)] Cons.prems(2) by auto
  then show ?case using t by (simp add: bind_err_def)
qed

lemma exec_stmt_frame:
  "tileMap (exec_stmt spawn s w) = tileMap w"
  "chunkCalls (exec_stmt spawn s w) = chunkCalls w"
  "currentLevel (gameState (exec_stmt spawn s w)) = currentLevel (gameState w)"
  "lumpsNeeded (exec_stmt spawn s w) i = (lumpsNeeded w i \<or> s = LumpNeeded i)"
  by (cases s; simp)+

lemma exec_stmts_frame:
  "tileMap (exec_stmts spawn ss w) = tileMap w"
  "chunkCalls (exec_stmts spawn ss w) = chunkCalls w"
  "currentLevel (gameState (exec_stmts spawn ss w)) = currentLevel (gameState w)"
  "lumpsNeeded (exec_stmts spawn ss w) i = (lumpsNeeded w i \<or> LumpNeeded i \<in> set ss)"
  unfolding exec_stmts_def
  by (induction ss arbitrary: w; auto simp: exec_stmt_frame)+

lemma scan_tile_frame:
  "tileMap (scan_tile tile spawn x y v w) = tileMap w"
  "chunkCalls (scan_tile tile spawn x y v w) = chunkCalls w"
  "currentLevel (gameState (scan_tile tile spawn x y v w)) = currentLevel (gameState w)"
  "lumpsNeeded (scan_tile tile spawn x y v w) i = (lumpsNeeded w i \<or> LumpNeeded i \<in> set (tile (gameState w) x y v))"
  by (simp_all add: scan_tile_def exec_stmts_frame)

lemma scan_coords_inPlane:
  assumes "(x, y) \<in> set (scan_coords m)"
  shows "CA_inPlane m (CA_TilePtrAtPos m x y)"
proof -
  from assms obtain i j where x: "x = int i" and y: "y = int j" and i: "i < mapW m" and j: "j < mapH m"
    by (auto simp: scan_coords_def)
  have "j * mapW m + i < j * mapW m + mapW m" using i by simp
  also have "\<dots> = Suc j * mapW m" by simp
  also have "\<dots> \<le> mapH m * mapW m" using j by (intro mult_le_mono1) simp
  finally have "j * mapW m + i < mapW m * mapH m" by (simp add: mult.commute)
  then have "int j * int (mapW m) + int i < int (mapW m * mapH m)"
    by (metis of_nat_add of_nat_less_iff of_nat_mult)
  then show ?thesis
    by (simp add: CA_inPlane_def CA_TilePtrAtPos_def x y)
qed

lemma scan_tiles_step:
  assumes "(case a of (x, y) \<Rightarrow> \<lambda>w1. bind_err (CA_TileAtPos (tileMap w1) x y 2)
             (\<lambda>v. Inr (scan_tile tile spawn x y (uint v) w1))) t = Inr t'"
  shows "\<exists>x y v. t' = scan_tile tile spawn x y v t"
  using assms by (cases a) (auto simp: bind_err_Inr)

lemma scan_tiles_inv:
  assumes "scan_tiles tile spawn w = Inr w'" and "P w"
    and "\<And>x y v t. P t \<Longrightarrow> P (scan_tile tile spawn x y v t)"
  shows "P w'"
  using assms(1) unfolding scan_tiles_def
  by (rule fold_err_inv [where P = P]) (use assms(2,3) scan_tiles_step in blast)+

lemma scan_tiles_total: "\<exists>w'. scan_tiles tile spawn w = Inr w'"
proof -
  have "\<exists>s'. fold_err (\<lambda>(x, y) w1. bind_err (CA_TileAtPos (tileMap w1) x y 2)
                              (\<lambda>v. Inr (scan_tile tile spawn x y (uint v) w1)))
       (scan_coords (tileMap w)) w = Inr s' \<and> tileMap s' = tileMap w"
  proof (rule fold_err_total [where Q = "\<lambda>t::scan_world. tileMap t = tileMap w"])
    show "tileMap w = tileMap w" by simp
  next
    fix a :: "int \<times> int" and t :: scan_world
    assume a: "a \<in> set (scan_coords (tileMap w))" and t: "tileMap t = tileMap w"
    obtain x y where xy: "a = (x, y)" by (cases a)
    have "CA_inPlane (tileMap w) (CA_TilePtrAtPos (tileMap w) x y)"
      using a xy scan_coords_inPlane by simp
    then show "\<exists>t'. (case a of (x, y) \<Rightarrow> \<lambda>w1. bind_err (CA_TileAtPos (tileMap w1) x y 2)
             (\<lambda>v. Inr (scan_tile tile spawn x y (uint v) w1))) t = Inr t' \<and> tileMap t' = tileMap w"
      by (simp add: xy t CA_TileAtPos_def CA_readTile_def bind_err_def scan_tile_frame)
  qed
  then show ?thesis by (auto simp: scan_tiles_def)
qed




lemma CK5_Scan_Inr:
  assumes "CK5_ScanInfoLayer LS spawn w = Inr w'"
  shows "\<exists>w1. scan_tiles (CK5_tile LS) spawn (w\<lparr>gameState := (gameState w)\<lparr>fusesRemaining := 0\<rparr>\<rparr>) = Inr w1 \<and>
           objPool w' = CK_DeactivateObjects (objPool w1) \<and>
           lumpsNeeded w' = lumpsNeeded w1 \<and>
           chunkCalls w' = chunkCalls w1 @ CK5_lump_requests (lumpsNeeded w1)"
  using assms
  by (auto simp: CK5_ScanInfoLayer_def bind_err_Inr Let_def split: if_splits list.splits)

lemma CK6_Scan_Inr:
  "\<exists>w1. scan_tiles CK6_tile spawn w = Inr w1 \<and>
      CK6_ScanInfoLayer spawn w =
        Inr (w1\<lparr>objPool := CK_DeactivateObjects (objPool w1),
                chunkCalls := chunkCalls w1 @ CK6_lump_requests (lumpsNeeded w1)\<rparr>)"
  using scan_tiles_total [of CK6_tile spawn w]
  by (auto simp: CK6_ScanInfoLayer_def bind_err_def Let_def)

lemma CK5_Scan_total:
  assumes "currentLevel (gameState w) \<noteq> 0"
  shows "\<exists>w'. CK5_ScanInfoLayer LS spawn w = Inr w'"
proof -
  obtain w1 where w1: "scan_tiles (CK5_tile LS) spawn (w\<lparr>gameState := (gameState w)\<lparr>fusesRemaining := 0\<rparr>\<rparr>) = Inr w1"
    using scan_tiles_total by blast
  have "currentLevel (gameState w1) = currentLevel (gameState w)"
    by (rule scan_tiles_inv [OF w1, where P = "\<lambda>t::scan_world. currentLevel (gameState t) = currentLevel (gameState w)"])
       (simp_all add: scan_tile_frame)
  then show ?thesis
    using assms by (simp add: CK5_ScanInfoLayer_def w1 bind_err_def Let_def)
qed











subsection \<open>The pass over the lumps\<close>

lemma set_lump_requests:
  "set (lump_requests request n starts ends needed) =
     {request j | i j. i < n \<and> needed i \<and> starts ! i \<le> j \<and> j \<le> ends ! i}"
  by (auto simp: lump_requests_def lump_chunks_def split: if_splits) blast

lemma count_list_distinct: "distinct xs \<Longrightarrow> count_list xs x = (if x \<in> set xs then 1 else 0)"
  by (induction xs) auto

lemma count_list_concat_map:
  "count_list (concat (map f xs)) c = sum_list (map (\<lambda>i. count_list (f i) c) xs)"
  by (induction xs) simp_all

lemma sum_list_indicator:
  fixes g :: "nat \<Rightarrow> nat"
  assumes "l < n" and "g l = 1" and "\<And>i. i < n \<Longrightarrow> i \<noteq> l \<Longrightarrow> g i = 0"
  shows "sum_list (map g [0..<n]) = 1"
  using assms
proof (induction n)
  case 0
  then show ?case by simp
next
  case (Suc n)
  show ?case
  proof (cases "l = n")
    case True
    have "sum_list (map g [0..<n]) = 0"
      using Suc.prems(3) True by (simp add: sum_list_eq_0_iff)
    then show ?thesis using Suc.prems(2) True by simp
  next
    case False
    then have "sum_list (map g [0..<n]) = 1"
      using Suc by simp
    moreover have "g n = 0" using Suc.prems(3) [of n] False by simp
    ultimately show ?thesis by simp
  qed
qed

lemma count_lump_requests:
  assumes inj: "inj request" and l: "l < n" "needed l" "starts ! l \<le> j" "j \<le> ends ! l"
    and disj: "\<And>i. i < n \<Longrightarrow> i \<noteq> l \<Longrightarrow> needed i \<Longrightarrow> \<not> (starts ! i \<le> j \<and> j \<le> ends ! i)"
  shows "count_list (lump_requests request n starts ends needed) (request j) = 1"
proof -
  have c: "count_list (lump_chunks request starts ends needed i) (request j)
      = (if needed i \<and> starts ! i \<le> j \<and> j \<le> ends ! i then 1 else 0)" for i
    using inj by (simp add: lump_chunks_def count_list_map_conv count_list_distinct)
  show ?thesis
    unfolding lump_requests_def count_list_concat_map c
    by (rule sum_list_indicator [OF l(1)]) (use l disj in auto)
qed

lemma all_less_list_all: "(\<forall>i<n. P i) \<longleftrightarrow> list_all P [0..<n]"
  by (auto simp: list_all_iff)

lemma ck5_ranges_disjoint:
  "\<forall>i<CK5_MAXLUMPS. \<forall>k<CK5_MAXLUMPS. i \<noteq> k \<longrightarrow>
     ck5_lumpEnds ! i < ck5_lumpStarts ! k \<or> ck5_lumpEnds ! k < ck5_lumpStarts ! i"
  unfolding all_less_list_all by code_simp

lemma ck6_ranges_disjoint:
  "\<forall>i<CK6_MAXLUMPS. \<forall>k<CK6_MAXLUMPS. i \<noteq> k \<longrightarrow>
     ck6_lumpEnds ! i < ck6_lumpStarts ! k \<or> ck6_lumpEnds ! k < ck6_lumpStarts ! i \<or>
     (ck6_lumpStarts ! i = 0 \<and> ck6_lumpEnds ! i = 0 \<and> ck6_lumpStarts ! k = 0 \<and> ck6_lumpEnds ! k = 0)"
  unfolding all_less_list_all by code_simp

lemma ck5_ranges_zero:
  "\<forall>i<CK5_MAXLUMPS. (ck5_lumpStarts ! i \<le> 0 \<and> 0 \<le> ck5_lumpEnds ! i) = (i = CK5_Lump_0) \<and>
     (ck5_lumpStarts ! i = 0 \<and> ck5_lumpEnds ! i = 0) = (i = CK5_Lump_0)"
  unfolding all_less_list_all by code_simp

lemma ck6_ranges_zero:
  "\<forall>i<CK6_MAXLUMPS. (ck6_lumpStarts ! i \<le> 0 \<and> 0 \<le> ck6_lumpEnds ! i) = (i = 12 \<or> i = 37 \<or> i = 38 \<or> i = 39) \<and>
     (ck6_lumpStarts ! i = 0 \<and> ck6_lumpEnds ! i = 0) = (i = 12 \<or> i = 37 \<or> i = 38 \<or> i = 39)"
  unfolding all_less_list_all by code_simp

lemma ck5_itemLumps_range: "57 \<le> v \<Longrightarrow> v \<le> 68 \<Longrightarrow> 2 \<le> ck5_itemLumps ! nat (v - 57) \<and> ck5_itemLumps ! nat (v - 57) \<le> 10"
proof -
  assume "57 \<le> v" "v \<le> 68"
  then have "nat (v - 57) < 12" by simp
  moreover have "\<forall>k<12. 2 \<le> ck5_itemLumps ! k \<and> ck5_itemLumps ! k \<le> 10"
    unfolding all_less_list_all by code_simp
  ultimately show ?thesis by blast
qed

lemma ck6_itemLumps_range: "57 \<le> v \<Longrightarrow> v \<le> 68 \<Longrightarrow> 2 \<le> ck6_itemLumps ! nat (v - 57) \<and> ck6_itemLumps ! nat (v - 57) \<le> 10"
proof -
  assume "57 \<le> v" "v \<le> 68"
  then have "nat (v - 57) < 12" by simp
  moreover have "\<forall>k<12. 2 \<le> ck6_itemLumps ! k \<and> ck6_itemLumps ! k \<le> 10"
    unfolding all_less_list_all by code_simp
  ultimately show ?thesis by blast
qed

lemma CK5_tile_lumps: "LumpNeeded l \<in> set (CK5_tile LS gs x y v) \<Longrightarrow> 1 \<le> l \<and> l < CK5_MAXLUMPS"
  using ck5_itemLumps_range [of v] ck5_itemLumps_range [of 68]
  by (simp add: CK5_tile_def at_hard_eq at_normal_def Let_def split: if_splits)

lemma CK6_tile_lumps: "LumpNeeded l \<in> set (CK6_tile gs x y v) \<Longrightarrow> 1 \<le> l \<and> l < 37 \<and> l \<noteq> 12"
  using ck6_itemLumps_range [of v] ck6_itemLumps_range [of 68]
    pos_mod_bound [of 4 "v - 7"] pos_mod_sign [of 4 "v - 7"]
  apply (simp add: CK6_tile_def at_hard_eq at_normal_def Let_def split: if_splits)
  apply auto?
  done

lemma CK5_zero_chunk:
  "CA_MarkGrChunk 0 \<in> set (CK5_lump_requests needed) \<longleftrightarrow>
     (\<exists>i<CK5_MAXLUMPS. ck5_lumpStarts ! i = 0 \<and> ck5_lumpEnds ! i = 0 \<and> needed i)"
  using ck5_ranges_zero by (auto simp: CK5_lump_requests_def set_lump_requests)

lemma CK6_zero_chunk:
  "CA_CacheGrChunk 0 \<in> set (CK6_lump_requests needed) \<longleftrightarrow>
     (\<exists>i<CK6_MAXLUMPS. ck6_lumpStarts ! i = 0 \<and> ck6_lumpEnds ! i = 0 \<and> needed i)"
  using ck6_ranges_zero by (auto simp: CK6_lump_requests_def set_lump_requests)

lemma CK5_tile_zero_flag:
  assumes "i < CK5_MAXLUMPS" "ck5_lumpStarts ! i = 0" "ck5_lumpEnds ! i = 0"
  shows "lumpsNeeded (scan_tile (CK5_tile LS) spawn x y v w) i = lumpsNeeded w i"
proof -
  have "i = 0" using assms ck5_ranges_zero by blast
  then show ?thesis
    using CK5_tile_lumps [of i LS "gameState w" x y v] by (auto simp: scan_tile_frame)
qed

lemma CK6_tile_zero_flag:
  assumes "i < CK6_MAXLUMPS" "ck6_lumpStarts ! i = 0" "ck6_lumpEnds ! i = 0"
  shows "lumpsNeeded (scan_tile CK6_tile spawn x y v w) i = lumpsNeeded w i"
proof -
  have "i = 12 \<or> i = 37 \<or> i = 38 \<or> i = 39" using assms ck6_ranges_zero by blast
  then show ?thesis
    using CK6_tile_lumps [of i "gameState w" x y v] by (auto simp: scan_tile_frame)
qed

lemma CK5_Scan_chunkCalls:
  assumes "CK5_ScanInfoLayer LS spawn w = Inr w'"
  shows "chunkCalls w' = chunkCalls w @ CK5_lump_requests (lumpsNeeded w')"
    and "i < CK5_MAXLUMPS \<Longrightarrow> ck5_lumpStarts ! i = 0 \<Longrightarrow> ck5_lumpEnds ! i = 0 \<Longrightarrow> lumpsNeeded w' i = lumpsNeeded w i"
proof -
  let ?w0 = "w\<lparr>gameState := (gameState w)\<lparr>fusesRemaining := 0\<rparr>\<rparr>"
  obtain w1 where w1: "scan_tiles (CK5_tile LS) spawn ?w0 = Inr w1"
    and l: "lumpsNeeded w' = lumpsNeeded w1"
    and c: "chunkCalls w' = chunkCalls w1 @ CK5_lump_requests (lumpsNeeded w1)"
    using CK5_Scan_Inr [OF assms] by blast
  have "chunkCalls w1 = chunkCalls w"
    by (rule scan_tiles_inv [OF w1, where P = "\<lambda>t::scan_world. chunkCalls t = chunkCalls w"])
       (simp_all add: scan_tile_frame)
  then show "chunkCalls w' = chunkCalls w @ CK5_lump_requests (lumpsNeeded w')"
    using c l by simp
  show "lumpsNeeded w' i = lumpsNeeded w i"
    if "i < CK5_MAXLUMPS" "ck5_lumpStarts ! i = 0" "ck5_lumpEnds ! i = 0"
  proof -
    have "lumpsNeeded w1 i = lumpsNeeded w i"
      by (rule scan_tiles_inv [OF w1, where P = "\<lambda>t::scan_world. lumpsNeeded t i = lumpsNeeded w i"])
         (simp_all add: CK5_tile_zero_flag [OF that])
    then show ?thesis using l by simp
  qed
qed

lemma CK6_Scan_chunkCalls:
  assumes "CK6_ScanInfoLayer spawn w = Inr w'"
  shows "chunkCalls w' = chunkCalls w @ CK6_lump_requests (lumpsNeeded w')"
    and "i < CK6_MAXLUMPS \<Longrightarrow> ck6_lumpStarts ! i = 0 \<Longrightarrow> ck6_lumpEnds ! i = 0 \<Longrightarrow> lumpsNeeded w' i = lumpsNeeded w i"
proof -
  obtain w1 where w1: "scan_tiles CK6_tile spawn w = Inr w1"
    and w': "w' = w1\<lparr>objPool := CK_DeactivateObjects (objPool w1),
                chunkCalls := chunkCalls w1 @ CK6_lump_requests (lumpsNeeded w1)\<rparr>"
    using CK6_Scan_Inr [of spawn w] assms by auto
  have "chunkCalls w1 = chunkCalls w"
    by (rule scan_tiles_inv [OF w1, where P = "\<lambda>t::scan_world. chunkCalls t = chunkCalls w"])
       (simp_all add: scan_tile_frame)
  then show "chunkCalls w' = chunkCalls w @ CK6_lump_requests (lumpsNeeded w')"
    by (simp add: w')
  show "lumpsNeeded w' i = lumpsNeeded w i"
    if "i < CK6_MAXLUMPS" "ck6_lumpStarts ! i = 0" "ck6_lumpEnds ! i = 0"
  proof -
    have "lumpsNeeded w1 i = lumpsNeeded w i"
      by (rule scan_tiles_inv [OF w1, where P = "\<lambda>t::scan_world. lumpsNeeded t i = lumpsNeeded w i"])
         (simp_all add: CK6_tile_zero_flag [OF that])
    then show ?thesis by (simp add: w')
  qed
qed

text \<open>
  No case of either scan reads \<^verbatim>\<open>fusesRemaining\<close>, the only field of the game state that a
  case writes: the statements of a tile are those that its info value gives in the game
  state at the start of the scan.
\<close>

lemma CK5_tile_fuses: "CK5_tile LS (gs\<lparr>fusesRemaining := n\<rparr>) x y v = CK5_tile LS gs x y v"
  by (simp add: CK5_tile_def)

lemma CK6_tile_fuses: "CK6_tile (gs\<lparr>fusesRemaining := n\<rparr>) x y v = CK6_tile gs x y v"
  by (simp add: CK6_tile_def)

lemma fold_err_sets:
  assumes "fold_err f xs s = Inr s'" and "I s" and "P s \<or> a \<in> set xs"
    and step: "\<And>b t t'. I t \<Longrightarrow> f b t = Inr t' \<Longrightarrow> I t' \<and> (P t \<longrightarrow> P t')"
    and hit: "\<And>t t'. I t \<Longrightarrow> f a t = Inr t' \<Longrightarrow> P t'"
  shows "P s'"
  using assms(1,2,3)
proof (induction xs arbitrary: s)
  case Nil
  then show ?case by simp
next
  case (Cons b xs)
  from Cons.prems(1) obtain t where t: "f b s = Inr t" and r: "fold_err f xs t = Inr s'"
    by (auto simp: bind_err_Inr)
  have i: "I t" using step [OF Cons.prems(2) t] by simp
  have "P t \<or> a \<in> set xs"
  proof (cases "a = b")
    case True
    then show ?thesis using hit [OF Cons.prems(2)] t by simp
  next
    case False
    then show ?thesis using Cons.prems(3) step [OF Cons.prems(2) t] by auto
  qed
  then show ?case by (rule Cons.IH [OF r i])
qed

lemma exec_stmt_gameState:
  "(gameState (exec_stmt spawn s w))\<lparr>fusesRemaining := 0\<rparr> = (gameState w)\<lparr>fusesRemaining := 0\<rparr>"
  by (cases s) simp_all

lemma exec_stmts_gameState:
  "(gameState (exec_stmts spawn ss w))\<lparr>fusesRemaining := 0\<rparr> = (gameState w)\<lparr>fusesRemaining := 0\<rparr>"
  unfolding exec_stmts_def
  by (induction ss arbitrary: w) (simp_all add: exec_stmt_gameState)

lemma scan_tile_gameState:
  "(gameState (scan_tile tile spawn x y v w))\<lparr>fusesRemaining := 0\<rparr> = (gameState w)\<lparr>fusesRemaining := 0\<rparr>"
  by (simp add: scan_tile_def exec_stmts_gameState)

lemma scan_tiles_sets:
  assumes s: "scan_tiles tile spawn w = Inr w'"
    and xy: "(x, y) \<in> set (scan_coords (tileMap w))"
    and v: "CA_TileAtPos (tileMap w) x y 2 = Inr v"
    and indep: "\<And>gs n x y v. tile (gs\<lparr>fusesRemaining := n\<rparr>) x y v = tile gs x y v"
    and l: "LumpNeeded l \<in> set (tile (gameState w) x y (uint v))"
  shows "lumpsNeeded w' l"
proof -
  let ?I = "\<lambda>t::scan_world. tileMap t = tileMap w \<and>
              (gameState t)\<lparr>fusesRemaining := 0\<rparr> = (gameState w)\<lparr>fusesRemaining := 0\<rparr>"
  let ?f = "\<lambda>(x, y) w1. bind_err (CA_TileAtPos (tileMap w1) x y 2)
                              (\<lambda>v. Inr (scan_tile tile spawn x y (uint v) w1))"
  have same: "tile (gameState t) = tile (gameState w)" if "?I t" for t
  proof -
    have "tile (gameState t) = tile ((gameState t)\<lparr>fusesRemaining := 0\<rparr>)"
      by (intro ext) (simp add: indep)
    also have "\<dots> = tile ((gameState w)\<lparr>fusesRemaining := 0\<rparr>)" using that by simp
    also have "\<dots> = tile (gameState w)" by (intro ext) (simp add: indep)
    finally show ?thesis .
  qed
  show ?thesis
  proof (rule fold_err_sets [where f = ?f and I = ?I and a = "(x, y)" and P = "\<lambda>t. lumpsNeeded t l"])
    show "fold_err ?f (scan_coords (tileMap w)) w = Inr w'"
      using s by (simp add: scan_tiles_def)
    show "?I w" by simp
    show "lumpsNeeded w l \<or> (x, y) \<in> set (scan_coords (tileMap w))" using xy by simp
  next
    fix b :: "int \<times> int" and t t' :: scan_world
    assume i: "?I t" and t: "?f b t = Inr t'"
    obtain x' y' v' where "t' = scan_tile tile spawn x' y' v' t"
      using scan_tiles_step [OF t] by blast
    then show "?I t' \<and> (lumpsNeeded t l \<longrightarrow> lumpsNeeded t' l)"
      using i by (simp add: scan_tile_frame scan_tile_gameState)
  next
    fix t t' :: scan_world
    assume i: "?I t" and t: "?f (x, y) t = Inr t'"
    have "t' = scan_tile tile spawn x y (uint v) t"
      using t i v by (simp add: bind_err_def)
    then show "lumpsNeeded t' l"
      using l same [OF i] by (simp add: scan_tile_frame)
  qed
qed

lemma CK5_Scan_sets:
  assumes s: "CK5_ScanInfoLayer LS spawn w = Inr w'"
    and xy: "(x, y) \<in> set (scan_coords (tileMap w))"
    and v: "CA_TileAtPos (tileMap w) x y 2 = Inr v"
    and l: "LumpNeeded l \<in> set (CK5_tile LS (gameState w) x y (uint v))"
  shows "lumpsNeeded w' l"
proof -
  let ?w0 = "w\<lparr>gameState := (gameState w)\<lparr>fusesRemaining := 0\<rparr>\<rparr>"
  obtain w1 where w1: "scan_tiles (CK5_tile LS) spawn ?w0 = Inr w1"
    and n: "lumpsNeeded w' = lumpsNeeded w1"
    using CK5_Scan_Inr [OF s] by blast
  have "lumpsNeeded w1 l"
    by (rule scan_tiles_sets [OF w1, of x y v]) (use xy v l in \<open>simp_all add: CK5_tile_fuses\<close>)
  then show ?thesis using n by simp
qed

lemma CK6_Scan_sets:
  assumes s: "CK6_ScanInfoLayer spawn w = Inr w'"
    and xy: "(x, y) \<in> set (scan_coords (tileMap w))"
    and v: "CA_TileAtPos (tileMap w) x y 2 = Inr v"
    and l: "LumpNeeded l \<in> set (CK6_tile (gameState w) x y (uint v))"
  shows "lumpsNeeded w' l"
proof -
  obtain w1 where w1: "scan_tiles CK6_tile spawn w = Inr w1"
    and w': "w' = w1\<lparr>objPool := CK_DeactivateObjects (objPool w1),
                chunkCalls := chunkCalls w1 @ CK6_lump_requests (lumpsNeeded w1)\<rparr>"
    using CK6_Scan_Inr [of spawn w] s by auto
  have "lumpsNeeded w1 l"
    by (rule scan_tiles_sets [OF w1 xy v _ l]) (simp add: CK6_tile_fuses)
  then show ?thesis by (simp add: w')
qed

lemma CK5_count_once:
  assumes "1 \<le> l" "l < CK5_MAXLUMPS" "needed l" "ck5_lumpStarts ! l \<le> j" "j \<le> ck5_lumpEnds ! l"
  shows "count_list (CK5_lump_requests needed) (CA_MarkGrChunk j) = 1"
  unfolding CK5_lump_requests_def
proof (rule count_lump_requests)
  show "inj CA_MarkGrChunk" by (simp add: inj_def)
  show "l < CK5_MAXLUMPS" "needed l" "ck5_lumpStarts ! l \<le> j" "j \<le> ck5_lumpEnds ! l"
    using assms by simp_all
  fix i assume "i < CK5_MAXLUMPS" "i \<noteq> l"
  then have "ck5_lumpEnds ! i < ck5_lumpStarts ! l \<or> ck5_lumpEnds ! l < ck5_lumpStarts ! i"
    using ck5_ranges_disjoint assms(2) by blast
  then show "\<not> (ck5_lumpStarts ! i \<le> j \<and> j \<le> ck5_lumpEnds ! i)"
    using assms(4,5) by linarith
qed

lemma CK6_count_once:
  assumes "l < 37" "l \<noteq> 12" "needed l" "ck6_lumpStarts ! l \<le> j" "j \<le> ck6_lumpEnds ! l"
  shows "count_list (CK6_lump_requests needed) (CA_CacheGrChunk j) = 1"
  unfolding CK6_lump_requests_def
proof (rule count_lump_requests)
  have l: "l < CK6_MAXLUMPS" using assms(1) by simp
  show "inj CA_CacheGrChunk" by (simp add: inj_def)
  show "l < CK6_MAXLUMPS" "needed l" "ck6_lumpStarts ! l \<le> j" "j \<le> ck6_lumpEnds ! l"
    using assms by simp_all
  have nz: "\<not> (ck6_lumpStarts ! l = 0 \<and> ck6_lumpEnds ! l = 0)"
    using ck6_ranges_zero l assms(1,2) by auto
  fix i assume "i < CK6_MAXLUMPS" "i \<noteq> l"
  then have "ck6_lumpEnds ! i < ck6_lumpStarts ! l \<or> ck6_lumpEnds ! l < ck6_lumpStarts ! i"
    using ck6_ranges_disjoint l nz by blast
  then show "\<not> (ck6_lumpStarts ! i \<le> j \<and> j \<le> ck6_lumpEnds ! i)"
    using assms(4,5) by linarith
qed

lemma CK5_flags_zero: "CK5_flags f \<Longrightarrow> \<not> f CK5_Lump_0"
proof (induction rule: CK5_flags.induct)
  case CK5_flags_start
  then show ?case by simp
next
  case (CK5_flags_scan w LS spawn w')
  have "lumpsNeeded w' 0 = lumpsNeeded w 0"
    by (rule CK5_Scan_chunkCalls(2) [OF CK5_flags_scan(2)])
       (simp_all add: ck5_lumpStarts_def ck5_lumpEnds_def)
  then show ?case using CK5_flags_scan.IH by simp
qed

lemma CK6_flags_zero:
  "CK6_flags f \<Longrightarrow> i < CK6_MAXLUMPS \<Longrightarrow> ck6_lumpStarts ! i = 0 \<Longrightarrow> ck6_lumpEnds ! i = 0 \<Longrightarrow> \<not> f i"
proof (induction rule: CK6_flags.induct)
  case CK6_flags_start
  then show ?case by simp
next
  case (CK6_flags_scan w spawn w')
  have "lumpsNeeded w' i = lumpsNeeded w i"
    by (rule CK6_Scan_chunkCalls(2) [OF CK6_flags_scan(2)]) (use CK6_flags_scan.prems in simp_all)
  then show ?case using CK6_flags_scan.IH CK6_flags_scan.prems by simp
qed

lemma CK5_requests_marks: "CA_CacheGrChunk c \<notin> set (CK5_lump_requests needed)"
  by (auto simp: CK5_lump_requests_def set_lump_requests)

lemma CK6_requests_caches: "CA_MarkGrChunk c \<notin> set (CK6_lump_requests needed)"
  by (auto simp: CK6_lump_requests_def set_lump_requests)

lemma world_demo_flags:
  "lumpsNeeded (world_demo d l) = (\<lambda>i. False)" "chunkCalls (world_demo d l) = []"
  "currentLevel (gameState (world_demo d l)) = l"
  by (simp_all add: world_demo_def gs_demo_def)

text \<open>
  Claim C4. The flags of the lump categories are static arrays, clear when the program
  starts and written by the scans only, which never clear them: \<open>CK5_flags\<close> and
  \<open>CK6_flags\<close> hold of the values that they have before a scan, in every run. Of every
  scan that starts from such flags and returns, and of every category \<open>l\<close> whose range
  is \<open>(0, 0)\<close>: the flag of \<open>l\<close> is clear at the end of the scan, so the pass over the
  lumps, which is all that the scan adds to the requests, makes no request for \<open>l\<close>; and
  chunk 0 is not requested by the pass at all, neither marked nor cached. The flags after the scan
  are again flags of a run.
\<close>

theorem C4_empty_range:
  "(CK5_flags (lumpsNeeded w) \<and> CK5_ScanInfoLayer LS spawn w = Inr w5 \<and>
    l < CK5_MAXLUMPS \<and> ck5_lumpStarts ! l = 0 \<and> ck5_lumpEnds ! l = 0 \<longrightarrow>
      CK5_flags (lumpsNeeded w5) \<and> \<not> lumpsNeeded w5 l \<and>
      chunkCalls w5 = chunkCalls w @ CK5_lump_requests (lumpsNeeded w5) \<and>
      lump_chunks CA_MarkGrChunk ck5_lumpStarts ck5_lumpEnds (lumpsNeeded w5) l = [] \<and>
      CA_MarkGrChunk 0 \<notin> set (CK5_lump_requests (lumpsNeeded w5)) \<and>
      CA_CacheGrChunk 0 \<notin> set (CK5_lump_requests (lumpsNeeded w5))) \<and>
   (CK6_flags (lumpsNeeded w) \<and> CK6_ScanInfoLayer spawn w = Inr w6 \<and>
    l < CK6_MAXLUMPS \<and> ck6_lumpStarts ! l = 0 \<and> ck6_lumpEnds ! l = 0 \<longrightarrow>
      CK6_flags (lumpsNeeded w6) \<and> \<not> lumpsNeeded w6 l \<and>
      chunkCalls w6 = chunkCalls w @ CK6_lump_requests (lumpsNeeded w6) \<and>
      lump_chunks CA_CacheGrChunk ck6_lumpStarts ck6_lumpEnds (lumpsNeeded w6) l = [] \<and>
      CA_CacheGrChunk 0 \<notin> set (CK6_lump_requests (lumpsNeeded w6)) \<and>
      CA_MarkGrChunk 0 \<notin> set (CK6_lump_requests (lumpsNeeded w6)))"
proof (intro conjI impI)
  assume a: "CK5_flags (lumpsNeeded w) \<and> CK5_ScanInfoLayer LS spawn w = Inr w5 \<and>
    l < CK5_MAXLUMPS \<and> ck5_lumpStarts ! l = 0 \<and> ck5_lumpEnds ! l = 0"
  then have s: "CK5_ScanInfoLayer LS spawn w = Inr w5" by simp
  show r: "CK5_flags (lumpsNeeded w5)"
    using a by (blast intro: CK5_flags_scan)
  have z: "i = CK5_Lump_0" if "i < CK5_MAXLUMPS" "ck5_lumpStarts ! i = 0 \<and> ck5_lumpEnds ! i = 0" for i
    using ck5_ranges_zero that by blast
  show n: "\<not> lumpsNeeded w5 l"
    using CK5_flags_zero [OF r] z [of l] a by simp
  show "chunkCalls w5 = chunkCalls w @ CK5_lump_requests (lumpsNeeded w5)"
    by (rule CK5_Scan_chunkCalls(1) [OF s])
  show "lump_chunks CA_MarkGrChunk ck5_lumpStarts ck5_lumpEnds (lumpsNeeded w5) l = []"
    using n by (simp add: lump_chunks_def)
  show "CA_MarkGrChunk 0 \<notin> set (CK5_lump_requests (lumpsNeeded w5))"
    unfolding CK5_zero_chunk using CK5_flags_zero [OF r] z by blast
  show "CA_CacheGrChunk 0 \<notin> set (CK5_lump_requests (lumpsNeeded w5))"
    by (rule CK5_requests_marks)
next
  assume a: "CK6_flags (lumpsNeeded w) \<and> CK6_ScanInfoLayer spawn w = Inr w6 \<and>
    l < CK6_MAXLUMPS \<and> ck6_lumpStarts ! l = 0 \<and> ck6_lumpEnds ! l = 0"
  then have s: "CK6_ScanInfoLayer spawn w = Inr w6" by simp
  show r: "CK6_flags (lumpsNeeded w6)"
    using a by (blast intro: CK6_flags_scan)
  show n: "\<not> lumpsNeeded w6 l"
    using CK6_flags_zero [OF r] a by simp
  show "chunkCalls w6 = chunkCalls w @ CK6_lump_requests (lumpsNeeded w6)"
    by (rule CK6_Scan_chunkCalls(1) [OF s])
  show "lump_chunks CA_CacheGrChunk ck6_lumpStarts ck6_lumpEnds (lumpsNeeded w6) l = []"
    using n by (simp add: lump_chunks_def)
  show "CA_CacheGrChunk 0 \<notin> set (CK6_lump_requests (lumpsNeeded w6))"
    unfolding CK6_zero_chunk using CK6_flags_zero [OF r] by blast
  show "CA_MarkGrChunk 0 \<notin> set (CK6_lump_requests (lumpsNeeded w6))"
    by (rule CK6_requests_caches)
qed


text \<open>The first scan of a run, on the level of two tiles.\<close>

theorem C4_empty_range_witness:
  "CK5_flags (lumpsNeeded (world_demo D_Hard 3)) \<and> CK6_flags (lumpsNeeded (world_demo D_Hard 3)) \<and>
   ck5_lumpStarts ! CK5_Lump_0 = 0 \<and> ck5_lumpEnds ! CK5_Lump_0 = 0 \<and>
   ck6_lumpStarts ! 12 = 0 \<and> ck6_lumpEnds ! 12 = 0 \<and>
   (\<exists>w5. CK5_ScanInfoLayer 6 spawn_demo (world_demo D_Hard 3) = Inr w5 \<and>
      \<not> lumpsNeeded w5 CK5_Lump_0 \<and> CA_MarkGrChunk 0 \<notin> set (chunkCalls w5)) \<and>
   (\<exists>w6. CK6_ScanInfoLayer spawn_demo (world_demo D_Hard 3) = Inr w6 \<and>
      \<not> lumpsNeeded w6 12 \<and> CA_CacheGrChunk 0 \<notin> set (chunkCalls w6))"
proof -
  have f5: "CK5_flags (lumpsNeeded (world_demo D_Hard 3))"
    unfolding world_demo_flags by (rule CK5_flags_start)
  have f6: "CK6_flags (lumpsNeeded (world_demo D_Hard 3))"
    unfolding world_demo_flags by (rule CK6_flags_start)
  have z5: "ck5_lumpStarts ! CK5_Lump_0 = 0 \<and> ck5_lumpEnds ! CK5_Lump_0 = 0"
    by (simp add: ck5_lumpStarts_def ck5_lumpEnds_def)
  have z6: "ck6_lumpStarts ! 12 = 0 \<and> ck6_lumpEnds ! 12 = 0"
    by (simp add: ck6_lumpStarts_def ck6_lumpEnds_def)
  obtain w5 where w5: "CK5_ScanInfoLayer 6 spawn_demo (world_demo D_Hard 3) = Inr w5"
    using CK5_Scan_total [of "world_demo D_Hard 3" 6 spawn_demo] by (auto simp: world_demo_flags)
  obtain w6 where w6: "CK6_ScanInfoLayer spawn_demo (world_demo D_Hard 3) = Inr w6"
    using CK6_Scan_Inr [of spawn_demo "world_demo D_Hard 3"] by blast
  have "\<not> lumpsNeeded w5 CK5_Lump_0 \<and> CA_MarkGrChunk 0 \<notin> set (chunkCalls w5)"
    using C4_empty_range [of "world_demo D_Hard 3" 6 spawn_demo w5 CK5_Lump_0 w6] f5 w5 z5
    by (simp add: world_demo_flags)
  moreover have "\<not> lumpsNeeded w6 12 \<and> CA_CacheGrChunk 0 \<notin> set (chunkCalls w6)"
    using C4_empty_range [of "world_demo D_Hard 3" 6 spawn_demo w5 12 w6] f6 w6 z6
    by (simp add: world_demo_flags)
  ultimately show ?thesis using f5 f6 z5 z6 w5 w6 by blast
qed

lemma world_twice_simps:
  "tileMap world_twice = map_twice" "chunkCalls world_twice = []"
  "currentLevel (gameState world_twice) = 3"
  "scan_coords map_twice = [(0, 0), (1, 0)]"
  "CA_TileAtPos map_twice 0 0 2 = Inr 1" "CA_TileAtPos map_twice 1 0 2 = Inr 2"
  by (simp_all add: world_twice_def world_demo_def gs_demo_def scan_coords_def map_twice_def
      numeral_2_eq_2 CA_TileAtPos_def CA_readTile_def CA_inPlane_def CA_TilePtrAtPos_def)

lemma tile_twice:
  "LumpNeeded CK5_Lump_Keen \<in> set (CK5_tile LS gs x y 1)" "LumpNeeded CK5_Lump_Keen \<in> set (CK5_tile LS gs x y 2)"
  "LumpNeeded CK6_Lump_Keen \<in> set (CK6_tile gs x y 1)" "LumpNeeded CK6_Lump_Keen \<in> set (CK6_tile gs x y 2)"
  by (simp_all add: CK5_tile_def CK6_tile_def)

text \<open>
  Claim C6. The flag of a lump category is a boolean: setting it twice is setting it
  once. Of every scan that returns, of Keen 5 and of Keen 6: when some tile of the level
  has an info value whose case sets the flag of the category \<open>l\<close>, whatever the other
  tiles do (they may set it again), the flag is set at the end of the scan, the scan
  adds to the requests those of the pass over the lumps and nothing else, and the pass
  requests every chunk \<open>j\<close> of the range of \<open>l\<close>, from its start to its end, both included,
  exactly once.
\<close>

theorem C6_lump_idempotent:
  "exec_stmt spawn (LumpNeeded l) (exec_stmt spawn (LumpNeeded l) w) = exec_stmt spawn (LumpNeeded l) w \<and>
   (CK5_ScanInfoLayer LS spawn w = Inr w5 \<and> (x, y) \<in> set (scan_coords (tileMap w)) \<and>
    CA_TileAtPos (tileMap w) x y 2 = Inr v \<and>
    LumpNeeded l \<in> set (CK5_tile LS (gameState w) x y (uint v)) \<and>
    ck5_lumpStarts ! l \<le> j \<and> j \<le> ck5_lumpEnds ! l \<longrightarrow>
      lumpsNeeded w5 l \<and>
      chunkCalls w5 = chunkCalls w @ CK5_lump_requests (lumpsNeeded w5) \<and>
      count_list (CK5_lump_requests (lumpsNeeded w5)) (CA_MarkGrChunk j) = 1) \<and>
   (CK6_ScanInfoLayer spawn w = Inr w6 \<and> (x, y) \<in> set (scan_coords (tileMap w)) \<and>
    CA_TileAtPos (tileMap w) x y 2 = Inr v \<and>
    LumpNeeded l \<in> set (CK6_tile (gameState w) x y (uint v)) \<and>
    ck6_lumpStarts ! l \<le> j \<and> j \<le> ck6_lumpEnds ! l \<longrightarrow>
      lumpsNeeded w6 l \<and>
      chunkCalls w6 = chunkCalls w @ CK6_lump_requests (lumpsNeeded w6) \<and>
      count_list (CK6_lump_requests (lumpsNeeded w6)) (CA_CacheGrChunk j) = 1)"
proof (intro conjI impI)
  show "exec_stmt spawn (LumpNeeded l) (exec_stmt spawn (LumpNeeded l) w) = exec_stmt spawn (LumpNeeded l) w"
    by simp
next
  assume a: "CK5_ScanInfoLayer LS spawn w = Inr w5 \<and> (x, y) \<in> set (scan_coords (tileMap w)) \<and>
    CA_TileAtPos (tileMap w) x y 2 = Inr v \<and>
    LumpNeeded l \<in> set (CK5_tile LS (gameState w) x y (uint v)) \<and>
    ck5_lumpStarts ! l \<le> j \<and> j \<le> ck5_lumpEnds ! l"
  then have s: "CK5_ScanInfoLayer LS spawn w = Inr w5" by simp
  show n: "lumpsNeeded w5 l"
    using CK5_Scan_sets [OF s, of x y v l] a by simp
  show "chunkCalls w5 = chunkCalls w @ CK5_lump_requests (lumpsNeeded w5)"
    by (rule CK5_Scan_chunkCalls(1) [OF s])
  have "1 \<le> l \<and> l < CK5_MAXLUMPS"
    using CK5_tile_lumps [of l LS "gameState w" x y "uint v"] a by simp
  then show "count_list (CK5_lump_requests (lumpsNeeded w5)) (CA_MarkGrChunk j) = 1"
    using CK5_count_once [of l "lumpsNeeded w5" j] n a by simp
next
  assume a: "CK6_ScanInfoLayer spawn w = Inr w6 \<and> (x, y) \<in> set (scan_coords (tileMap w)) \<and>
    CA_TileAtPos (tileMap w) x y 2 = Inr v \<and>
    LumpNeeded l \<in> set (CK6_tile (gameState w) x y (uint v)) \<and>
    ck6_lumpStarts ! l \<le> j \<and> j \<le> ck6_lumpEnds ! l"
  then have s: "CK6_ScanInfoLayer spawn w = Inr w6" by simp
  show n: "lumpsNeeded w6 l"
    using CK6_Scan_sets [OF s, of x y v l] a by simp
  show "chunkCalls w6 = chunkCalls w @ CK6_lump_requests (lumpsNeeded w6)"
    by (rule CK6_Scan_chunkCalls(1) [OF s])
  have "1 \<le> l \<and> l < 37 \<and> l \<noteq> 12"
    using CK6_tile_lumps [of l "gameState w" x y "uint v"] a by simp
  then show "count_list (CK6_lump_requests (lumpsNeeded w6)) (CA_CacheGrChunk j) = 1"
    using CK6_count_once [of l "lumpsNeeded w6" j] n a by simp
qed

text \<open>
  On the level of two tiles with the info values 1 and 2, both of which set the flag of
  the lump of Keen, each scan requests the first chunk of that lump once.
\<close>

theorem C6_lump_idempotent_witness:
  "LumpNeeded CK5_Lump_Keen \<in> set (CK5_tile 6 (gameState world_twice) 0 0 1) \<and>
   LumpNeeded CK5_Lump_Keen \<in> set (CK5_tile 6 (gameState world_twice) 1 0 2) \<and>
   LumpNeeded CK6_Lump_Keen \<in> set (CK6_tile (gameState world_twice) 0 0 1) \<and>
   LumpNeeded CK6_Lump_Keen \<in> set (CK6_tile (gameState world_twice) 1 0 2) \<and>
   ck5_lumpStarts ! CK5_Lump_Keen \<le> 0x6C \<and> 0x6C \<le> ck5_lumpEnds ! CK5_Lump_Keen \<and>
   ck6_lumpStarts ! CK6_Lump_Keen \<le> 52 \<and> 52 \<le> ck6_lumpEnds ! CK6_Lump_Keen \<and>
   (\<exists>w5. CK5_ScanInfoLayer 6 spawn_demo world_twice = Inr w5 \<and> lumpsNeeded w5 CK5_Lump_Keen \<and>
      count_list (chunkCalls w5) (CA_MarkGrChunk 0x6C) = 1) \<and>
   (\<exists>w6. CK6_ScanInfoLayer spawn_demo world_twice = Inr w6 \<and> lumpsNeeded w6 CK6_Lump_Keen \<and>
      count_list (chunkCalls w6) (CA_CacheGrChunk 52) = 1)"
proof -
  have r5: "ck5_lumpStarts ! CK5_Lump_Keen \<le> 0x6C \<and> 0x6C \<le> ck5_lumpEnds ! CK5_Lump_Keen"
    by (simp add: ck5_lumpStarts_def ck5_lumpEnds_def)
  have r6: "ck6_lumpStarts ! CK6_Lump_Keen \<le> 52 \<and> 52 \<le> ck6_lumpEnds ! CK6_Lump_Keen"
    by (simp add: ck6_lumpStarts_def ck6_lumpEnds_def)
  obtain w5 where w5: "CK5_ScanInfoLayer 6 spawn_demo world_twice = Inr w5"
    using CK5_Scan_total [of world_twice 6 spawn_demo] by (auto simp: world_twice_simps)
  obtain w6 where w6: "CK6_ScanInfoLayer spawn_demo world_twice = Inr w6"
    using CK6_Scan_Inr [of spawn_demo world_twice] by blast
  have "lumpsNeeded w5 CK5_Lump_Keen \<and> count_list (chunkCalls w5) (CA_MarkGrChunk 0x6C) = 1"
    using C6_lump_idempotent [of spawn_demo CK5_Lump_Keen world_twice 6 w5 1 0 2 "0x6C" w6]
      w5 r5 tile_twice(2) [of 6 "gameState world_twice" 1 0]
    by (simp add: world_twice_simps)
  moreover have "lumpsNeeded w6 CK6_Lump_Keen \<and> count_list (chunkCalls w6) (CA_CacheGrChunk 52) = 1"
    using C6_lump_idempotent [of spawn_demo CK6_Lump_Keen world_twice 6 w5 1 0 2 52 w6]
      w6 r6 tile_twice(4) [of "gameState world_twice" 1 0]
    by (simp add: world_twice_simps)
  ultimately show ?thesis using r5 r6 w5 w6 tile_twice by blast
qed
subsection \<open>The big switch: finding the info tile\<close>

lemma switch_scan_zero:
  assumes "\<forall>j. 0 \<le> j \<and> j < k \<longrightarrow> CA_inPlane m (p + j) \<and> CA_mapPlanes m 2 (nat (p + j)) = 0" and "0 \<le> k"
  shows "switch_scan m tx p = switch_scan m (tx + k) (p + k)"
  using assms
proof (induction "nat k" arbitrary: k tx p)
  case 0
  then show ?case by simp
next
  case (Suc n)
  then have k: "0 < k" and n: "n = nat (k - 1)" by linarith+
  have here: "CA_inPlane m p" "CA_mapPlanes m 2 (nat p) = 0"
    using Suc.prems(1) [rule_format, of 0] k by simp_all
  have rest: "\<forall>j. 0 \<le> j \<and> j < k - 1 \<longrightarrow> CA_inPlane m (p + 1 + j) \<and> CA_mapPlanes m 2 (nat (p + 1 + j)) = 0"
  proof (intro allI impI)
    fix j assume "0 \<le> j \<and> j < k - 1"
    then show "CA_inPlane m (p + 1 + j) \<and> CA_mapPlanes m 2 (nat (p + 1 + j)) = 0"
      using Suc.prems(1) [rule_format, of "j + 1"] by (simp add: ac_simps)
  qed
  have "switch_scan m tx p = switch_scan m (tx + 1) (p + 1)"
    using here by (subst switch_scan.simps) simp
  also have "\<dots> = switch_scan m (tx + 1 + (k - 1)) (p + 1 + (k - 1))"
    using Suc.hyps(1) [OF n rest] k by simp
  finally show ?case by simp
qed

lemma switch_scan_none:
  assumes "\<forall>q. p \<le> q \<and> CA_inPlane m q \<longrightarrow> CA_mapPlanes m 2 (nat q) = 0"
  shows "switch_scan m tx p = Inl OutOfBounds"
  using assms
proof (induction m tx p rule: switch_scan.induct)
  case (1 m tx infoTile)
  show ?case
  proof (cases "CA_inPlane m infoTile")
    case False
    then show ?thesis by (subst switch_scan.simps) simp
  next
    case True
    then have z: "CA_mapPlanes m 2 (nat infoTile) = 0" using 1(2) by simp
    have "switch_scan m (tx + 1) (infoTile + 1) = Inl OutOfBounds"
      using 1(1) [OF _ _ ] True z 1(2) by simp
    then show ?thesis using True z by (subst switch_scan.simps) simp
  qed
qed

text \<open>
  Claim C9. The loop that looks for the info tile of the switch starts at the pointer
  \<open>p\<close> and advances the pointer and \<open>tx\<close> by one at a time. When some tile of the info
  plane at or after \<open>p\<close> is not zero, the loop terminates at the first such tile: it returns
  \<open>tx + k\<close> and \<open>p + k\<close>, where the tile at \<open>p + k\<close> is not zero and every tile from \<open>p\<close> up to
  it is zero. When there is none, nothing stops the loop inside the plane: it reads
  beyond the end of the plane, which the C program leaves undefined.
\<close>

theorem C9_switch_scan:
  "(0 \<le> p \<and> (\<exists>q. p \<le> q \<and> CA_inPlane m q \<and> CA_mapPlanes m 2 (nat q) \<noteq> 0) \<longrightarrow>
      (\<exists>k. 0 \<le> k \<and> switch_scan m tx p = Inr (tx + k, p + k) \<and>
           CA_inPlane m (p + k) \<and> CA_mapPlanes m 2 (nat (p + k)) \<noteq> 0 \<and>
           (\<forall>j. 0 \<le> j \<and> j < k \<longrightarrow> CA_mapPlanes m 2 (nat (p + j)) = 0))) \<and>
   ((\<forall>q. p \<le> q \<and> CA_inPlane m q \<longrightarrow> CA_mapPlanes m 2 (nat q) = 0) \<longrightarrow>
      switch_scan m tx p = Inl OutOfBounds)"
proof (intro conjI impI)
  assume a: "0 \<le> p \<and> (\<exists>q. p \<le> q \<and> CA_inPlane m q \<and> CA_mapPlanes m 2 (nat q) \<noteq> 0)"
  then obtain q where q: "p \<le> q" "CA_inPlane m q" "CA_mapPlanes m 2 (nat q) \<noteq> 0" by blast
  define P where "P = (\<lambda>n. CA_mapPlanes m 2 (nat p + n) \<noteq> 0)"
  have "nat p + nat (q - p) = nat q"
    using q a by linarith
  then have "P (nat (q - p))"
    using q by (simp add: P_def)
  then have ex: "\<exists>n. P n" ..
  define n where "n = (LEAST n. P n)"
  have Pn: "P n" unfolding n_def using ex by (rule LeastI_ex)
  have least: "\<And>i. i < n \<Longrightarrow> \<not> P i" unfolding n_def by (rule not_less_Least)
  have nq: "n \<le> nat (q - p)" unfolding n_def using \<open>P (nat (q - p))\<close> by (rule Least_le)
  have inpl: "CA_inPlane m (p + j)" if "0 \<le> j" "j \<le> int n" for j
    using that nq q a by (auto simp: CA_inPlane_def)
  have idx: "nat (p + j) = nat p + nat j" if "0 \<le> j" for j
    using that a by (simp add: nat_add_distrib)
  have zero: "\<forall>j. 0 \<le> j \<and> j < int n \<longrightarrow> CA_inPlane m (p + j) \<and> CA_mapPlanes m 2 (nat (p + j)) = 0"
  proof (intro allI impI)
    fix j assume j: "0 \<le> j \<and> j < int n"
    then have "nat j < n" by linarith
    then have "\<not> P (nat j)" by (rule least)
    then show "CA_inPlane m (p + j) \<and> CA_mapPlanes m 2 (nat (p + j)) = 0"
      using j inpl [of j] by (simp add: P_def idx)
  qed
  have found: "CA_mapPlanes m 2 (nat (p + int n)) \<noteq> 0"
    using Pn by (simp add: P_def idx)
  have "switch_scan m tx p = switch_scan m (tx + int n) (p + int n)"
    by (rule switch_scan_zero [OF zero]) simp
  also have "\<dots> = Inr (tx + int n, p + int n)"
    using found inpl [of "int n"] by (subst switch_scan.simps) simp
  finally show "\<exists>k. 0 \<le> k \<and> switch_scan m tx p = Inr (tx + k, p + k) \<and>
           CA_inPlane m (p + k) \<and> CA_mapPlanes m 2 (nat (p + k)) \<noteq> 0 \<and>
           (\<forall>j. 0 \<le> j \<and> j < k \<longrightarrow> CA_mapPlanes m 2 (nat (p + j)) = 0)"
    using found zero inpl [of "int n"] by (intro exI [of _ "int n"]) simp
next
  assume "\<forall>q. p \<le> q \<and> CA_inPlane m q \<longrightarrow> CA_mapPlanes m 2 (nat q) = 0"
  then show "switch_scan m tx p = Inl OutOfBounds" by (rule switch_scan_none)
qed

theorem C9_switch_scan_witness:
  "(0::int) \<le> 9 \<and> CA_inPlane sw_map 10 \<and> CA_mapPlanes sw_map 2 (nat 10) \<noteq> 0 \<and>
   CA_mapPlanes sw_map 2 (nat 9) = 0 \<and> switch_scan sw_map 0 9 = Inr (1, 10)"
proof -
  have a: "CA_inPlane sw_map 10" "CA_mapPlanes sw_map 2 (nat 10) \<noteq> 0" "CA_mapPlanes sw_map 2 (nat 9) = 0"
    by (simp_all add: CA_inPlane_def sw_map_def sw_info_def)
  then have "0 \<le> (9::int) \<and> (\<exists>q. 9 \<le> q \<and> CA_inPlane sw_map q \<and> CA_mapPlanes sw_map 2 (nat q) \<noteq> 0)"
    by (intro conjI exI [of _ 10]) simp_all
  with C9_switch_scan [of 9 sw_map 0, THEN conjunct1]
  obtain k where k: "0 \<le> k" "switch_scan sw_map 0 9 = Inr (0 + k, 9 + k)"
    "CA_mapPlanes sw_map 2 (nat (9 + k)) \<noteq> 0"
    "\<forall>j. 0 \<le> j \<and> j < k \<longrightarrow> CA_mapPlanes sw_map 2 (nat (9 + j)) = 0"
    by blast
  have "k \<noteq> 0" using k(3) a(3) by auto
  moreover have "\<not> 1 < k" using k(4) [rule_format, of 1] a(2) by auto
  ultimately have "k = 1" using k(1) by linarith
  then show ?thesis using k(2) a by simp
qed

subsection \<open>The big switch: toggling a bridge twice\<close>

text \<open>
  Every step of a toggle with the effect of a bridge replaces foreground tiles by their
  animated counterparts: the block of the switch all at once, each row of the bridge
  tile after tile, up to the first tile whose offset is zero. So the level after a step
  is \<open>flipped ti m S\<close> for the level \<open>m\<close> before it and the set \<open>S\<close> of the indices
  replaced; in a row these are the indices of the run of the row.
\<close>

lemma TI_animated_add: "TI_animated ti t = t + word_of_int (TI_ForeAnimTile ti t)"
  by (simp add: TI_animated_def)

lemma TI_animated_zero: "TI_ForeAnimTile ti t = 0 \<Longrightarrow> TI_animated ti t = t"
  by (simp add: TI_animated_def)

lemma anim_involutiveD:
  assumes "anim_involutive ti m A" and "i \<in> A"
  shows "TI_animated ti (TI_animated ti (CA_mapPlanes m (Suc 0) i)) = CA_mapPlanes m (Suc 0) i"
    and "TI_ForeAnimTile ti (TI_animated ti (CA_mapPlanes m (Suc 0) i)) = 0 \<longleftrightarrow> TI_ForeAnimTile ti (CA_mapPlanes m (Suc 0) i) = 0"
proof -
  define t where "t = CA_mapPlanes m (Suc 0) i"
  have s: "TI_ForeAnimTile ti (TI_animated ti t) = - TI_ForeAnimTile ti t"
    using assms unfolding anim_involutive_def t_def One_nat_def by (metis add.commute add_eq_0_iff)
  have "TI_animated ti (TI_animated ti t) = TI_animated ti t + word_of_int (TI_ForeAnimTile ti (TI_animated ti t))"
    by (rule TI_animated_add)
  also have "\<dots> = TI_animated ti t + word_of_int (- TI_ForeAnimTile ti t)"
    by (simp only: s)
  also have "\<dots> = t + word_of_int (TI_ForeAnimTile ti t) + word_of_int (- TI_ForeAnimTile ti t)"
    by (simp only: TI_animated_add [of ti t])
  also have "\<dots> = t" by simp
  finally show "TI_animated ti (TI_animated ti (CA_mapPlanes m (Suc 0) i)) = CA_mapPlanes m (Suc 0) i"
    by (simp only: t_def)
  show "TI_ForeAnimTile ti (TI_animated ti (CA_mapPlanes m (Suc 0) i)) = 0 \<longleftrightarrow> TI_ForeAnimTile ti (CA_mapPlanes m (Suc 0) i) = 0"
    using s by (simp add: t_def)
qed

lemma flipped_simps:
  "mapW (flipped ti m S) = mapW m"
  "mapH (flipped ti m S) = mapH m"
  "CA_inPlane (flipped ti m S) p = CA_inPlane m p"
  "CA_TilePtrAtPos (flipped ti m S) x y = CA_TilePtrAtPos m x y"
  "CA_mapPlanes (flipped ti m S) 2 = CA_mapPlanes m 2"
  "CA_mapPlanes (flipped ti m S) (Suc 0) i = (if i \<in> S then TI_animated ti (CA_mapPlanes m (Suc 0) i) else CA_mapPlanes m (Suc 0) i)"
  "CA_readTile (flipped ti m S) 2 p = CA_readTile m 2 p"
  by (simp_all add: flipped_def CA_inPlane_def CA_TilePtrAtPos_def CA_readTile_def)

lemma flipped_empty: "flipped ti m {} = m"
  by (simp add: flipped_def)

lemma flipped_insert:
  assumes "CA_inPlane m p" and "nat p \<notin> S"
  shows "CA_writeTile (Suc 0) p (TI_animated ti (CA_mapPlanes (flipped ti m S) (Suc 0) (nat p))) (flipped ti m S)
     = Inr (flipped ti m (insert (nat p) S))"
proof -
  have "(CA_mapPlanes (flipped ti m S))(Suc 0 := (CA_mapPlanes (flipped ti m S) (Suc 0))
            (nat p := TI_animated ti (CA_mapPlanes (flipped ti m S) (Suc 0) (nat p))))
      = CA_mapPlanes (flipped ti m (insert (nat p) S))"
    using assms(2) by (intro ext) (auto simp: flipped_def)
  then show ?thesis
    using assms(1) by (simp add: CA_writeTile_def flipped_simps)
qed

text \<open>The run of a row.\<close>

lemma bridge_row_run_nonzero:
  "i \<in> set (bridge_row_run ti y x m) \<Longrightarrow> TI_ForeAnimTile ti (CA_mapPlanes m (Suc 0) i) \<noteq> 0"
proof (induction ti y x m rule: bridge_row_run.induct)
  case (1 ti y x m)
  define p where "p = CA_TilePtrAtPos m x y"
  show ?case
  proof (cases "x < int (mapW m) \<and> CA_inPlane m p \<and> TI_ForeAnimTile ti (CA_mapPlanes m (Suc 0) (nat p)) \<noteq> 0")
    case True
    have run: "bridge_row_run ti y x m = nat p # bridge_row_run ti y (x + 1) m"
      using True by (subst bridge_row_run.simps) (simp add: p_def)
    from 1(2) have "i = nat p \<or> i \<in> set (bridge_row_run ti y (x + 1) m)"
      by (simp add: run)
    then show ?thesis
    proof
      assume "i = nat p"
      then show ?thesis using True by simp
    next
      assume "i \<in> set (bridge_row_run ti y (x + 1) m)"
      then show ?thesis
        using True by (intro 1(1)) (simp_all add: p_def)
    qed
  next
    case False
    then have "bridge_row_run ti y x m = []"
      by (subst bridge_row_run.simps) (auto simp: p_def)
    then show ?thesis using 1(2) by simp
  qed
qed

lemma bridge_row_run_cong:
  assumes "mapW m' = mapW m" and "mapH m' = mapH m"
    and "\<And>i. TI_ForeAnimTile ti (CA_mapPlanes m (Suc 0) i) = 0 \<Longrightarrow> TI_ForeAnimTile ti (CA_mapPlanes m' (Suc 0) i) = 0"
    and "\<And>i. i \<in> set (bridge_row_run ti y x m) \<Longrightarrow> TI_ForeAnimTile ti (CA_mapPlanes m' (Suc 0) i) \<noteq> 0"
  shows "bridge_row_run ti y x m' = bridge_row_run ti y x m"
  using assms
proof (induction ti y x m rule: bridge_row_run.induct)
  case (1 ti y x m)
  note dims = 1(2,3)
  define p where "p = CA_TilePtrAtPos m x y"
  have p': "CA_TilePtrAtPos m' x y = p" "CA_inPlane m' p = CA_inPlane m p"
    by (simp_all add: p_def CA_TilePtrAtPos_def CA_inPlane_def dims)
  show ?case
  proof (cases "x < int (mapW m) \<and> CA_inPlane m p \<and> TI_ForeAnimTile ti (CA_mapPlanes m (Suc 0) (nat p)) \<noteq> 0")
    case True
    have run: "bridge_row_run ti y x m = nat p # bridge_row_run ti y (x + 1) m"
      using True by (subst bridge_row_run.simps) (simp add: p_def)
    have nz: "TI_ForeAnimTile ti (CA_mapPlanes m' (Suc 0) (nat p)) \<noteq> 0"
      using 1(5) [of "nat p"] by (simp add: run)
    have "bridge_row_run ti y (x + 1) m' = bridge_row_run ti y (x + 1) m"
      using True 1(4,5) by (intro 1(1) dims) (simp_all add: p_def run)
    then show ?thesis
      using True nz by (subst bridge_row_run.simps) (simp add: p' dims run)
  next
    case False
    then have "bridge_row_run ti y x m = []"
      by (subst bridge_row_run.simps) (auto simp: p_def)
    moreover have "bridge_row_run ti y x m' = []"
      using False 1(4) [of "nat p"] by (subst bridge_row_run.simps) (auto simp: p' dims)
    ultimately show ?thesis by simp
  qed
qed

lemma bridge_row_oob_cong:
  assumes "mapW m' = mapW m" and "mapH m' = mapH m" and "bridge_row_run ti y x m' = bridge_row_run ti y x m"
  shows "bridge_row_oob ti y x m' = bridge_row_oob ti y x m"
  using assms by (simp add: bridge_row_oob_def CA_inPlane_def CA_TilePtrAtPos_def)

lemma bridge_row_flipped:
  assumes "\<forall>i \<in> S. int i < y * int (mapW m) + x"
  shows "bridge_row ti y x (flipped ti m S) =
     (if bridge_row_oob ti y x m then Inl OutOfBounds
      else Inr (flipped ti m (S \<union> set (bridge_row_run ti y x m))))"
  using assms
proof (induction ti y x m arbitrary: S rule: bridge_row_run.induct)
  case (1 ti y x m)
  define p where "p = CA_TilePtrAtPos m x y"
  have p: "p = y * int (mapW m) + x"
    by (simp add: p_def CA_TilePtrAtPos_def)
  have notin: "nat p \<notin> S" if "CA_inPlane m p"
  proof
    have "\<forall>i \<in> S. int i < p" using 1(2) by (simp only: p)
    moreover assume "nat p \<in> S"
    ultimately have "int (nat p) < p" by blast
    moreover have "0 \<le> p" using that by (simp add: CA_inPlane_def)
    ultimately show False by simp
  qed
  have step: "bridge_row ti y x (flipped ti m S) =
      (if x < int (mapW m)
       then if CA_inPlane m p
            then if TI_ForeAnimTile ti (CA_mapPlanes m (Suc 0) (nat p)) = 0 then Inr (flipped ti m S)
                 else bridge_row ti y (x + 1) (flipped ti m (insert (nat p) S))
            else Inl OutOfBounds
       else Inr (flipped ti m S))"
  proof (cases "CA_inPlane m p")
    case True
    have w: "CA_writeTile (Suc 0) p (TI_animated ti (CA_mapPlanes m (Suc 0) (nat p))) (flipped ti m S)
        = Inr (flipped ti m (insert (nat p) S))"
      using flipped_insert [OF True notin [OF True], of ti] notin [OF True] by (simp add: flipped_simps)
    show ?thesis
      using True notin [OF True]
      by (subst bridge_row.simps)
         (simp add: p_def [symmetric] CA_TileAtPos_def CA_readTile_def RF_ReplaceTiles_one flipped_simps w)
  next
    case False
    then show ?thesis
      by (subst bridge_row.simps)
         (simp add: p_def [symmetric] CA_TileAtPos_def CA_readTile_def flipped_simps)
  qed
  show ?case
  proof (cases "x < int (mapW m) \<and> CA_inPlane m p \<and> TI_ForeAnimTile ti (CA_mapPlanes m (Suc 0) (nat p)) \<noteq> 0")
    case True
    have run: "bridge_row_run ti y x m = nat p # bridge_row_run ti y (x + 1) m"
      using True by (subst bridge_row_run.simps) (simp add: p_def)
    have oob: "bridge_row_oob ti y x m = bridge_row_oob ti y (x + 1) m"
      by (simp add: bridge_row_oob_def run add.assoc)
    have "\<forall>i \<in> insert (nat p) S. int i < y * int (mapW m) + (x + 1)"
      using 1(2) True by (auto simp: p CA_inPlane_def)
    then have "bridge_row ti y (x + 1) (flipped ti m (insert (nat p) S)) =
        (if bridge_row_oob ti y (x + 1) m then Inl OutOfBounds
         else Inr (flipped ti m (insert (nat p) S \<union> set (bridge_row_run ti y (x + 1) m))))"
      using True by (intro 1(1)) (simp_all add: p_def)
    then show ?thesis
      using True by (simp add: step oob run)
  next
    case False
    then have run: "bridge_row_run ti y x m = []"
      by (subst bridge_row_run.simps) (auto simp: p_def)
    show ?thesis
      using False by (auto simp: step run bridge_row_oob_def p_def)
  qed
qed

lemma bridge_row_eq:
  "bridge_row ti y x m =
     (if bridge_row_oob ti y x m then Inl OutOfBounds
      else Inr (flipped ti m (set (bridge_row_run ti y x m))))"
  using bridge_row_flipped [of "{}" y m x ti] by (simp add: flipped_empty)


text \<open>The block of the switch.\<close>

lemma read_animated_acc:
  "fold_err (\<lambda>p acc. bind_err (CA_readTile m 1 p) (\<lambda>t. Inr (acc @ [TI_animated ti t]))) ps acc
     = (if \<forall>p \<in> set ps. CA_inPlane m p
        then Inr (acc @ map (\<lambda>p. TI_animated ti (CA_mapPlanes m 1 (nat p))) ps)
        else Inl OutOfBounds)"
proof (induction ps arbitrary: acc)
  case Nil
  show ?case by simp
next
  case (Cons p ps)
  show ?case
  proof (cases "CA_inPlane m p")
    case True
    then have r: "CA_readTile m 1 p = Inr (CA_mapPlanes m 1 (nat p))"
      by (simp add: CA_readTile_def)
    show ?thesis
      using True by (simp only: fold_err.simps r bind_err_simps Cons.IH) simp
  next
    case False
    then have r: "CA_readTile m 1 p = Inl OutOfBounds"
      by (simp add: CA_readTile_def)
    show ?thesis
      using False by (simp only: fold_err.simps r bind_err_simps) simp
  qed
qed

lemma read_animated_eq:
  "read_animated ti m ps
     = (if \<forall>p \<in> set ps. CA_inPlane m p
        then Inr (map (\<lambda>p. TI_animated ti (CA_mapPlanes m 1 (nat p))) ps)
        else Inl OutOfBounds)"
  unfolding read_animated_def read_animated_acc by simp

lemma fold_update:
  "fold (\<lambda>p g. g(nat p := h (nat p))) ps g0 = (\<lambda>i. if i \<in> nat ` set ps then h i else g0 i)"
  by (induction ps arbitrary: g0) (auto simp: fun_eq_iff)

lemma rect_coords_2_3: "rect_coords 2 3 = [(0, 0), (1, 0), (0, 1), (1, 1), (0, 2), (1, 2)]"
  by (simp add: rect_coords_def numeral_2_eq_2 numeral_3_eq_3)

lemma RF_ReplaceTiles_fold:
  assumes "mapW m' = mapW m"
  shows "fold_err (\<lambda>(i, j) m1. CA_writeTile plane (CA_TilePtrAtPos m1 (x + int i) (y + int j)) (ts ! (j * w + i)) m1) cs m'
     = fold_err (\<lambda>(p, v). CA_writeTile plane p v)
         (map (\<lambda>(i, j). (CA_TilePtrAtPos m (x + int i) (y + int j), ts ! (j * w + i))) cs) m'"
  using assms
proof (induction cs arbitrary: m')
  case Nil
  show ?case by simp
next
  case (Cons c cs)
  obtain i j where c: "c = (i, j)" by (cases c)
  have p: "CA_TilePtrAtPos m' (x + int i) (y + int j) = CA_TilePtrAtPos m (x + int i) (y + int j)"
    using Cons.prems by (simp add: CA_TilePtrAtPos_def)
  show ?case
  proof (cases "CA_writeTile plane (CA_TilePtrAtPos m (x + int i) (y + int j)) (ts ! (j * w + i)) m'")
    case (Inl e)
    then show ?thesis by (simp add: c p bind_err_simps)
  next
    case (Inr m'')
    then have "mapW m'' = mapW m"
      using CA_writeTile_dims [OF Inr] Cons.prems by simp
    then show ?thesis
      using Inr by (simp add: c p bind_err_simps Cons.IH)
  qed
qed

lemma replace_block:
  "RF_ReplaceTiles (map (\<lambda>p. h (nat p)) (switch_block m (CA_TilePtrAtPos m tx ty))) 1 tx ty 2 3 m
     = fold_err (\<lambda>(p, v). CA_writeTile 1 p v)
         (map (\<lambda>p. (p, h (nat p))) (switch_block m (CA_TilePtrAtPos m tx ty))) m"
  unfolding RF_ReplaceTiles_def RF_ReplaceTiles_fold [OF refl]
  by (simp add: rect_coords_2_3 switch_block_def CA_TilePtrAtPos_def algebra_simps)

lemma write_list:
  assumes "\<forall>p \<in> set ps. CA_inPlane m p"
  shows "fold_err (\<lambda>(p, v). CA_writeTile 1 p v) (map (\<lambda>p. (p, h (nat p))) ps) m
     = Inr (m\<lparr>CA_mapPlanes := (CA_mapPlanes m)
              (1 := fold (\<lambda>p g. g(nat p := h (nat p))) ps (CA_mapPlanes m 1))\<rparr>)"
  using assms
proof (induction ps arbitrary: m)
  case Nil
  show ?case by simp
next
  case (Cons p ps)
  define m' where "m' = m\<lparr>CA_mapPlanes := (CA_mapPlanes m)(1 := (CA_mapPlanes m 1)(nat p := h (nat p)))\<rparr>"
  have w: "CA_writeTile 1 p (h (nat p)) m = Inr m'"
    using Cons.prems by (simp add: CA_writeTile_def m'_def)
  have "\<forall>p \<in> set ps. CA_inPlane m' p"
    using Cons.prems by (simp add: m'_def CA_inPlane_def)
  from Cons.IH [OF this]
  have ih: "fold_err (\<lambda>(p, v). CA_writeTile 1 p v) (map (\<lambda>p. (p, h (nat p))) ps) m'
     = Inr (m'\<lparr>CA_mapPlanes := (CA_mapPlanes m')
              (1 := fold (\<lambda>p g. g(nat p := h (nat p))) ps (CA_mapPlanes m' 1))\<rparr>)" .
  have "fold_err (\<lambda>(p, v). CA_writeTile 1 p v) (map (\<lambda>p. (p, h (nat p))) (p # ps)) m
     = bind_err (CA_writeTile 1 p (h (nat p)) m)
         (fold_err (\<lambda>(p, v). CA_writeTile 1 p v) (map (\<lambda>p. (p, h (nat p))) ps))"
    by simp
  also have "\<dots> = fold_err (\<lambda>(p, v). CA_writeTile 1 p v) (map (\<lambda>p. (p, h (nat p))) ps) m'"
    by (simp only: w bind_err_simps)
  also note ih
  also have "m'\<lparr>CA_mapPlanes := (CA_mapPlanes m')
              (1 := fold (\<lambda>p g. g(nat p := h (nat p))) ps (CA_mapPlanes m' 1))\<rparr>
     = m\<lparr>CA_mapPlanes := (CA_mapPlanes m)
              (1 := fold (\<lambda>p g. g(nat p := h (nat p))) (p # ps) (CA_mapPlanes m 1))\<rparr>"
    by (simp add: m'_def)
  finally show ?case .
qed



lemma switch_replace_eq:
  "CK6_switch_replace ti tx ty m =
     (if (\<forall>p \<in> set (switch_block m (CA_TilePtrAtPos m tx ty)). CA_inPlane m p)
         \<and> CA_inPlane m (CA_TilePtrAtPos m (tx + 1) (ty + 1))
      then Inr (uint (drop_bit 8 (CA_mapPlanes m 2 (nat (CA_TilePtrAtPos m (tx + 1) (ty + 1))))),
                uint (CA_mapPlanes m 2 (nat (CA_TilePtrAtPos m (tx + 1) (ty + 1))) AND 0xFF),
                flipped ti m (nat ` set (switch_block m (CA_TilePtrAtPos m tx ty))))
      else Inl OutOfBounds)"
proof -
  define block where "block = switch_block m (CA_TilePtrAtPos m tx ty)"
  define h where "h = (\<lambda>i. TI_animated ti (CA_mapPlanes m 1 i))"
  show ?thesis
  proof (cases "\<forall>p \<in> set block. CA_inPlane m p")
    case False
    then have "read_animated ti m block = Inl OutOfBounds"
      by (simp add: read_animated_eq)
    then have "CK6_switch_replace ti tx ty m = Inl OutOfBounds"
      by (simp add: CK6_switch_replace_def block_def bind_err_simps)
    then show ?thesis
      using False by (simp add: block_def)
  next
    case True
    have rd: "read_animated ti m block = Inr (map (\<lambda>p. h (nat p)) block)"
      using True by (simp add: read_animated_eq h_def)
    have "RF_ReplaceTiles (map (\<lambda>p. h (nat p)) block) 1 tx ty 2 3 m
        = fold_err (\<lambda>(p, v). CA_writeTile 1 p v) (map (\<lambda>p. (p, h (nat p))) block) m"
      unfolding block_def by (rule replace_block)
    also have "\<dots> = Inr (m\<lparr>CA_mapPlanes := (CA_mapPlanes m)
              (1 := fold (\<lambda>p g. g(nat p := h (nat p))) block (CA_mapPlanes m 1))\<rparr>)"
      using True by (rule write_list)
    also have "fold (\<lambda>p g. g(nat p := h (nat p))) block (CA_mapPlanes m 1)
        = (\<lambda>i. if i \<in> nat ` set block then h i else CA_mapPlanes m 1 i)"
      by (rule fold_update)
    also have "m\<lparr>CA_mapPlanes := (CA_mapPlanes m)
              (1 := (\<lambda>i. if i \<in> nat ` set block then h i else CA_mapPlanes m 1 i))\<rparr>
        = flipped ti m (nat ` set block)"
      by (simp only: flipped_def h_def)
    finally have wr: "RF_ReplaceTiles (map (\<lambda>p. h (nat p)) block) 1 tx ty 2 3 m
        = Inr (flipped ti m (nat ` set block))" .
    have "CK6_switch_replace ti tx ty m =
        bind_err (CA_readTile m 2 (CA_TilePtrAtPos m (tx + 1) (ty + 1)))
          (\<lambda>v. Inr (uint (drop_bit 8 v), uint (v AND 0xFF), flipped ti m (nat ` set block)))"
      by (simp only: CK6_switch_replace_def block_def [symmetric] rd wr bind_err_simps) (simp add: flipped_simps)
    then show ?thesis
      using True by (simp add: block_def CA_readTile_def bind_err_simps)
  qed
qed

lemma switch_scan_cong:
  assumes "mapW m' = mapW m" and "mapH m' = mapH m" and "CA_mapPlanes m' 2 = CA_mapPlanes m 2"
  shows "switch_scan m' tx p = switch_scan m tx p"
  using assms
proof (induction m tx p rule: switch_scan.induct)
  case (1 m tx p)
  have "CA_inPlane m' p = CA_inPlane m p"
    using 1(2,3) by (simp add: CA_inPlane_def)
  then show ?case
    using 1 by (subst switch_scan.simps, subst (2) switch_scan.simps) simp
qed

lemma switch_tiles_frame:
  assumes "CK6_switch_tiles ti obj dir m = Inr (dx, dy, m0)"
  shows "\<exists>B. m0 = flipped ti m B
      \<and> (\<forall>m'. mapW m' = mapW m \<and> mapH m' = mapH m \<and> CA_mapPlanes m' 2 = CA_mapPlanes m 2
             \<longrightarrow> CK6_switch_tiles ti obj dir m' = Inr (dx, dy, flipped ti m' B))"
proof -
  define ty where "ty = (if dir then tileY2 (clipRects obj) else tileY1 (clipRects obj) - 2)"
  define tx0 where "tx0 = tileX1 (clipRects obj) - 1"
  have unfold: "CK6_switch_tiles ti obj dir n =
      bind_err (switch_scan n tx0 (CA_TilePtrAtPos n (tx0 + 1) (ty + 1)))
        (\<lambda>(tx, infoTile). CK6_switch_replace ti tx ty n)" for n
    by (simp add: CK6_switch_tiles_def ty_def tx0_def Let_def)
  from assms obtain tx infoTile
    where scan: "switch_scan m tx0 (CA_TilePtrAtPos m (tx0 + 1) (ty + 1)) = Inr (tx, infoTile)"
      and repl: "CK6_switch_replace ti tx ty m = Inr (dx, dy, m0)"
    unfolding unfold by (auto simp: bind_err_Inr)
  define B where "B = nat ` set (switch_block m (CA_TilePtrAtPos m tx ty))"
  define c where "c \<longleftrightarrow> (\<forall>p \<in> set (switch_block m (CA_TilePtrAtPos m tx ty)). CA_inPlane m p)
         \<and> CA_inPlane m (CA_TilePtrAtPos m (tx + 1) (ty + 1))"
  define v where "v = CA_mapPlanes m 2 (nat (CA_TilePtrAtPos m (tx + 1) (ty + 1)))"
  have eq: "CK6_switch_replace ti tx' ty m' =
      (if (\<forall>p \<in> set (switch_block m' (CA_TilePtrAtPos m' tx' ty)). CA_inPlane m' p)
         \<and> CA_inPlane m' (CA_TilePtrAtPos m' (tx' + 1) (ty + 1))
       then Inr (uint (drop_bit 8 (CA_mapPlanes m' 2 (nat (CA_TilePtrAtPos m' (tx' + 1) (ty + 1))))),
                uint (CA_mapPlanes m' 2 (nat (CA_TilePtrAtPos m' (tx' + 1) (ty + 1))) AND 0xFF),
                flipped ti m' (nat ` set (switch_block m' (CA_TilePtrAtPos m' tx' ty))))
       else Inl OutOfBounds)" for tx' m'
    by (rule switch_replace_eq)
  have r: "CK6_switch_replace ti tx ty m = (if c then Inr (uint (drop_bit 8 v), uint (v AND 0xFF), flipped ti m B) else Inl OutOfBounds)"
    unfolding c_def v_def B_def by (rule eq)
  have c: c
    using repl unfolding r by (cases c) simp_all
  have d: "dx = uint (drop_bit 8 v)" "dy = uint (v AND 0xFF)" and m0: "m0 = flipped ti m B"
    using repl c unfolding r by simp_all
  have "CK6_switch_tiles ti obj dir m' = Inr (dx, dy, flipped ti m' B)"
    if "mapW m' = mapW m \<and> mapH m' = mapH m \<and> CA_mapPlanes m' 2 = CA_mapPlanes m 2" for m'
  proof -
    have same: "CA_TilePtrAtPos m' = CA_TilePtrAtPos m" "CA_inPlane m' = CA_inPlane m"
      "switch_block m' = switch_block m"
      using that by (simp_all add: fun_eq_iff CA_TilePtrAtPos_def CA_inPlane_def switch_block_def)
    have "switch_scan m' tx0 (CA_TilePtrAtPos m' (tx0 + 1) (ty + 1)) = Inr (tx, infoTile)"
      using that scan switch_scan_cong [of m' m tx0 "CA_TilePtrAtPos m (tx0 + 1) (ty + 1)"] by (simp add: same)
    moreover have "CK6_switch_replace ti tx ty m' = Inr (dx, dy, flipped ti m' B)"
      using c that unfolding eq same c_def d v_def B_def by simp
    ultimately show ?thesis
      unfolding unfold by (simp add: bind_err_simps)
  qed
  then show ?thesis
    using m0 by blast
qed

text \<open>The runs on the concrete level.\<close>

lemma sw_map_simps:
  "mapW sw_map = 8" "mapH sw_map = 4"
  "CA_mapPlanes sw_map (Suc 0) = sw_fg" "CA_mapPlanes sw_map 2 = sw_info"
  "mapW sw_map_on = 8" "mapH sw_map_on = 4"
  "CA_mapPlanes sw_map_on (Suc 0) = sw_fg_on" "CA_mapPlanes sw_map_on 2 = sw_info"
  by (simp_all add: sw_map_def sw_map_on_def)

lemma sw_scan_demo:
  assumes "mapW m = 8" "mapH m = 4" "CA_mapPlanes m 2 = sw_info"
  shows "switch_scan m 0 9 = Inr (1, 10)"
  by (simp add: switch_scan.simps assms sw_info_def CA_inPlane_def)

lemma sw_tiles_demo:
  assumes "mapW m = 8" "mapH m = 4" "CA_mapPlanes m 2 = sw_info"
  shows "CK6_switch_tiles ti sw_obj True m = Inr (4, 2, flipped ti m {1, 2, 9, 10, 17, 18})"
proof -
  have "switch_block m (CA_TilePtrAtPos m 1 0) = [1, 2, 9, 10, 17, 18]"
    by (simp add: switch_block_def CA_TilePtrAtPos_def assms)
  then have "CK6_switch_replace ti 1 0 m = Inr (4, 2, flipped ti m {1, 2, 9, 10, 17, 18})"
    by (simp add: switch_replace_eq) (simp add: CA_inPlane_def CA_TilePtrAtPos_def assms sw_info_def)
  then show ?thesis
    by (simp add: CK6_switch_tiles_def sw_obj_def CK_object_zero_def Let_def
          CA_TilePtrAtPos_def assms sw_scan_demo [OF assms] bind_err_simps)
qed

lemma sw_row2_demo:
  assumes "mapW m = 8" "mapH m = 4"
    and "TI_ForeAnimTile ti (CA_mapPlanes m (Suc 0) 20) \<noteq> 0" "TI_ForeAnimTile ti (CA_mapPlanes m (Suc 0) 21) \<noteq> 0"
      "TI_ForeAnimTile ti (CA_mapPlanes m (Suc 0) 22) \<noteq> 0" "TI_ForeAnimTile ti (CA_mapPlanes m (Suc 0) 23) = 0"
  shows "bridge_row_run ti 2 4 m = [20, 21, 22]" "\<not> bridge_row_oob ti 2 4 m"
proof -
  show r: "bridge_row_run ti 2 4 m = [20, 21, 22]"
    using assms by (simp add: bridge_row_run.simps CA_TilePtrAtPos_def CA_inPlane_def)
  show "\<not> bridge_row_oob ti 2 4 m"
    using assms(1,2) by (simp add: bridge_row_oob_def r CA_TilePtrAtPos_def CA_inPlane_def)
qed

lemma sw_row3_demo:
  assumes "mapW m = 8" "mapH m = 4"
    and "TI_ForeAnimTile ti (CA_mapPlanes m (Suc 0) 27) \<noteq> 0" "TI_ForeAnimTile ti (CA_mapPlanes m (Suc 0) 28) \<noteq> 0"
      "TI_ForeAnimTile ti (CA_mapPlanes m (Suc 0) 29) = 0"
  shows "bridge_row_run ti 3 3 m = [27, 28]" "\<not> bridge_row_oob ti 3 3 m"
proof -
  show r: "bridge_row_run ti 3 3 m = [27, 28]"
    using assms by (simp add: bridge_row_run.simps CA_TilePtrAtPos_def CA_inPlane_def)
  show "\<not> bridge_row_oob ti 3 3 m"
    using assms(1,2) by (simp add: bridge_row_oob_def r CA_TilePtrAtPos_def CA_inPlane_def)
qed

lemma sw_bridge_demo:
  assumes "mapW m = 8" "mapH m = 4"
    and "TI_ForeAnimTile ti (CA_mapPlanes m (Suc 0) 20) \<noteq> 0" "TI_ForeAnimTile ti (CA_mapPlanes m (Suc 0) 21) \<noteq> 0"
      "TI_ForeAnimTile ti (CA_mapPlanes m (Suc 0) 22) \<noteq> 0" "TI_ForeAnimTile ti (CA_mapPlanes m (Suc 0) 23) = 0"
      "TI_ForeAnimTile ti (CA_mapPlanes m (Suc 0) 27) \<noteq> 0" "TI_ForeAnimTile ti (CA_mapPlanes m (Suc 0) 28) \<noteq> 0"
      "TI_ForeAnimTile ti (CA_mapPlanes m (Suc 0) 29) = 0"
  shows "bridge ti 4 2 m = Inr (flipped ti (flipped ti m {20, 21, 22}) {27, 28})"
proof -
  have r1: "bridge_row ti 2 4 m = Inr (flipped ti m {20, 21, 22})"
    using sw_row2_demo [OF assms(1-6)] by (simp add: bridge_row_eq)
  have "bridge_row_run ti 3 3 (flipped ti m {20, 21, 22}) = [27, 28]"
    by (rule sw_row3_demo(1); simp add: flipped_simps assms)
  moreover have "\<not> bridge_row_oob ti 3 3 (flipped ti m {20, 21, 22})"
    by (rule sw_row3_demo(2); simp add: flipped_simps assms)
  ultimately have "bridge_row ti 3 3 (flipped ti m {20, 21, 22}) = Inr (flipped ti (flipped ti m {20, 21, 22}) {27, 28})"
    by (simp add: bridge_row_eq)
  then show ?thesis
    by (simp add: bridge_def r1 bind_err_simps)
qed

lemma sw_anim: "TI_ForeAnimTile ti_stuck = TI_ForeAnimTile ti_demo"
  by (simp add: ti_stuck_def)

lemma sw_effect_demo:
  assumes "mapW m = 8" "mapH m = 4" "CA_mapPlanes m 2 = sw_info"
  shows "CK6_switch_effect ti 4 2 m =
     (let miscValue = TI_ForeMisc ti (CA_mapPlanes m (Suc 0) 20) AND 0x7F
      in if miscValue = MISCFLAG_ACTIVEZAPPER ti then Inr ActiveZapper
         else if miscValue = MISCFLAG_INACTIVEZAPPER ti then Inr InactiveZapper
         else if miscValue = MISCFLAG_BRIDGE ti then Inr Bridge
         else Inr BBlock)"
  by (simp add: CK6_switch_effect_def CA_readTile_def CA_TilePtrAtPos_def CA_inPlane_def
        assms sw_info_def bind_err_simps)

lemma sw_region_demo:
  assumes "TI_ForeAnimTile ti = TI_ForeAnimTile ti_demo"
  shows "bridge_region ti sw_obj True sw_map = [20, 21, 22, 27, 28]"
proof -
  have "bridge_row_run ti 2 4 (flipped ti sw_map {1, 2, 9, 10, 17, 18}) = [20, 21, 22]"
    by (rule sw_row2_demo; simp add: flipped_simps sw_map_simps sw_fg_def assms ti_demo_def)
  moreover have "bridge_row_run ti 3 3 (flipped ti sw_map {1, 2, 9, 10, 17, 18}) = [27, 28]"
    by (rule sw_row3_demo; simp add: flipped_simps sw_map_simps sw_fg_def assms ti_demo_def)
  ultimately show ?thesis
    by (simp add: bridge_region_def sw_tiles_demo sw_map_simps)
qed

lemma sw_first_toggle:
  assumes "TI_ForeAnimTile ti = TI_ForeAnimTile ti_demo"
    and "TI_ForeMisc ti 100 = 18" and "MISCFLAG_BRIDGE ti = 18"
    and "MISCFLAG_ACTIVEZAPPER ti = 19" and "MISCFLAG_INACTIVEZAPPER ti = 30"
  shows "CK6_toggle_effect ti sw_obj True sw_map = Inr Bridge"
    and "CK6_ToggleBigSwitch ti sw_obj True sw_map = Inr sw_map_on"
proof -
  have eff: "CK6_switch_effect ti 4 2 (flipped ti sw_map {1, 2, 9, 10, 17, 18}) =
     (let miscValue = TI_ForeMisc ti (CA_mapPlanes (flipped ti sw_map {1, 2, 9, 10, 17, 18}) (Suc 0) 20) AND 0x7F
      in if miscValue = MISCFLAG_ACTIVEZAPPER ti then Inr ActiveZapper
         else if miscValue = MISCFLAG_INACTIVEZAPPER ti then Inr InactiveZapper
         else if miscValue = MISCFLAG_BRIDGE ti then Inr Bridge
         else Inr BBlock)"
    by (rule sw_effect_demo) (simp_all add: flipped_simps sw_map_simps)
  have e: "CK6_switch_effect ti 4 2 (flipped ti sw_map {1, 2, 9, 10, 17, 18}) = Inr Bridge"
    by (simp only: eff) (simp add: flipped_simps sw_map_simps sw_fg_def assms)
  show "CK6_toggle_effect ti sw_obj True sw_map = Inr Bridge"
    using e by (simp add: CK6_toggle_effect_def sw_tiles_demo sw_map_simps bind_err_simps)
  have "bridge ti 4 2 (flipped ti sw_map {1, 2, 9, 10, 17, 18})
      = Inr (flipped ti (flipped ti (flipped ti sw_map {1, 2, 9, 10, 17, 18}) {20, 21, 22}) {27, 28})"
    by (rule sw_bridge_demo; simp add: flipped_simps sw_map_simps sw_fg_def assms ti_demo_def)
  moreover have "flipped ti (flipped ti (flipped ti sw_map {1, 2, 9, 10, 17, 18}) {20, 21, 22}) {27, 28} = sw_map_on"
    by (auto simp: flipped_def sw_map_on_def sw_map_def fun_eq_iff sw_fg_def sw_fg_on_def TI_animated_def assms ti_demo_def)
  ultimately show "CK6_ToggleBigSwitch ti sw_obj True sw_map = Inr sw_map_on"
    using e by (simp add: CK6_ToggleBigSwitch_def CK6_switch_apply_def sw_tiles_demo sw_map_simps bind_err_simps)
qed


lemma sw_involutive_demo:
  assumes "TI_ForeAnimTile ti = TI_ForeAnimTile ti_demo"
  shows "anim_involutive ti sw_map (set (bridge_region ti sw_obj True sw_map))"
  unfolding anim_involutive_def One_nat_def sw_region_demo [OF assms]
  by (simp add: assms sw_map_simps sw_fg_def TI_animated_def ti_demo_def)

lemma sw_second_toggle:
  "CK6_toggle_effect ti_demo sw_obj True sw_map_on = Inr Bridge"
  "CK6_ToggleBigSwitch ti_demo sw_obj True sw_map_on = Inr sw_map_off"
proof -
  have eff: "CK6_switch_effect ti_demo 4 2 (flipped ti_demo sw_map_on {1, 2, 9, 10, 17, 18}) =
     (let miscValue = TI_ForeMisc ti_demo (CA_mapPlanes (flipped ti_demo sw_map_on {1, 2, 9, 10, 17, 18}) (Suc 0) 20) AND 0x7F
      in if miscValue = MISCFLAG_ACTIVEZAPPER ti_demo then Inr ActiveZapper
         else if miscValue = MISCFLAG_INACTIVEZAPPER ti_demo then Inr InactiveZapper
         else if miscValue = MISCFLAG_BRIDGE ti_demo then Inr Bridge
         else Inr BBlock)"
    by (rule sw_effect_demo) (simp_all add: flipped_simps sw_map_simps)
  have e: "CK6_switch_effect ti_demo 4 2 (flipped ti_demo sw_map_on {1, 2, 9, 10, 17, 18}) = Inr Bridge"
    by (simp only: eff) (simp add: flipped_simps sw_map_simps sw_fg_on_def ti_demo_def)
  show "CK6_toggle_effect ti_demo sw_obj True sw_map_on = Inr Bridge"
    using e by (simp add: CK6_toggle_effect_def sw_tiles_demo sw_map_simps bind_err_simps)
  have "bridge ti_demo 4 2 (flipped ti_demo sw_map_on {1, 2, 9, 10, 17, 18})
      = Inr (flipped ti_demo (flipped ti_demo (flipped ti_demo sw_map_on {1, 2, 9, 10, 17, 18}) {20, 21, 22}) {27, 28})"
    by (rule sw_bridge_demo; simp add: flipped_simps sw_map_simps sw_fg_on_def ti_demo_def)
  moreover have "flipped ti_demo (flipped ti_demo (flipped ti_demo sw_map_on {1, 2, 9, 10, 17, 18}) {20, 21, 22}) {27, 28} = sw_map_off"
    by (auto simp: flipped_def sw_map_on_def sw_map_off_def sw_map_def fun_eq_iff sw_fg_on_def sw_fg_off_def TI_animated_def ti_demo_def)
  ultimately show "CK6_ToggleBigSwitch ti_demo sw_obj True sw_map_on = Inr sw_map_off"
    using e by (simp add: CK6_ToggleBigSwitch_def CK6_switch_apply_def sw_tiles_demo sw_map_simps bind_err_simps)
qed

text \<open>
  Claim C8, as amended. The claim is that a toggle whose destination has the misc flag
  of a bridge, applied twice with the same object and direction, restores the tiles of
  the bridge, when the offsets of every tile of the bridge run and of its animated
  counterpart add up to zero. With the flag at the destination before the first toggle
  only, the code does not: the second toggle decides its effect by the misc flag of the
  tile that is at the destination then, which is the animated counterpart (see the run
  with \<open>ti_stuck\<close> below). What holds: when the first toggle runs to its end, both
  toggles have the effect of a bridge, and for the tiles of the level at the indices of
  the bridge region the offsets of the tile and of its animated counterpart add up to
  zero, then the second toggle runs to its end as well, and after it every tile of the
  bridge region is the tile that was there before the first toggle. Nothing is assumed
  of the tiles of the switch: in the concrete run they are not restored, the bridge is.
\<close>

theorem C8_bridge_round_trip:
  assumes inv: "anim_involutive ti m (set (bridge_region ti obj dir m))"
    and t1: "CK6_ToggleBigSwitch ti obj dir m = Inr m1"
    and e1: "CK6_toggle_effect ti obj dir m = Inr Bridge"
    and e2: "CK6_toggle_effect ti obj dir m1 = Inr Bridge"
  shows "\<exists>m2. CK6_ToggleBigSwitch ti obj dir m1 = Inr m2
      \<and> (\<forall>i \<in> set (bridge_region ti obj dir m). CA_mapPlanes m2 1 i = CA_mapPlanes m 1 i)"
proof -
  from t1 obtain dx dy X0 where tiles: "CK6_switch_tiles ti obj dir m = Inr (dx, dy, X0)"
    by (auto simp: CK6_ToggleBigSwitch_def bind_err_Inr)
  define R1 where "R1 = set (bridge_row_run ti dy dx X0)"
  define R2 where "R2 = set (bridge_row_run ti (dy + 1) (dx - 1) X0)"
  have region: "set (bridge_region ti obj dir m) = R1 \<union> R2"
    by (simp add: bridge_region_def tiles R1_def R2_def)
  from switch_tiles_frame [OF tiles] obtain B where X0: "X0 = flipped ti m B"
    and st: "\<And>m'. mapW m' = mapW m \<and> mapH m' = mapH m \<and> CA_mapPlanes m' 2 = CA_mapPlanes m 2
               \<Longrightarrow> CK6_switch_tiles ti obj dir m' = Inr (dx, dy, flipped ti m' B)"
    by blast
  have toggle: "CK6_ToggleBigSwitch ti obj dir n = bridge ti dx dy (flipped ti n B)"
    if "mapW n = mapW m \<and> mapH n = mapH m \<and> CA_mapPlanes n 2 = CA_mapPlanes m 2"
      and "CK6_toggle_effect ti obj dir n = Inr Bridge" for n
    using that(2)
    by (simp add: CK6_ToggleBigSwitch_def CK6_toggle_effect_def CK6_switch_apply_def st [OF that(1)] bind_err_simps)

  have a2: "TI_animated ti (TI_animated ti (CA_mapPlanes m (Suc 0) i)) = CA_mapPlanes m (Suc 0) i"
    and z: "TI_ForeAnimTile ti (TI_animated ti (CA_mapPlanes m (Suc 0) i)) = 0 \<longleftrightarrow> TI_ForeAnimTile ti (CA_mapPlanes m (Suc 0) i) = 0"
    if "i \<in> R1 \<union> R2" for i
    using anim_involutiveD [OF inv, of i] that by (simp_all add: region)
  have nz0: "TI_ForeAnimTile ti (CA_mapPlanes X0 (Suc 0) i) \<noteq> 0" if "i \<in> R1 \<union> R2" for i
    using that bridge_row_run_nonzero [of i ti dy dx X0] bridge_row_run_nonzero [of i ti "dy + 1" "dx - 1" X0]
    by (auto simp: R1_def R2_def)
  have nz: "TI_ForeAnimTile ti (CA_mapPlanes m (Suc 0) i) \<noteq> 0"
    "TI_ForeAnimTile ti (TI_animated ti (CA_mapPlanes m (Suc 0) i)) \<noteq> 0" if "i \<in> R1 \<union> R2" for i
    using nz0 [OF that] z [OF that] by (auto simp: X0 flipped_simps split: if_splits)
  note a0 = TI_animated_zero

  have b1: "bridge ti dx dy X0 = Inr m1"
    using toggle [of m] e1 t1 by (simp add: X0)
  define X1 where "X1 = flipped ti X0 R1"
  from b1 have o1: "\<not> bridge_row_oob ti dy dx X0" and r2: "bridge_row ti (dy + 1) (dx - 1) X1 = Inr m1"
    by (auto simp: bridge_def bind_err_def bridge_row_eq [of ti dy dx X0] X1_def R1_def split: if_splits)
  have run2_X1: "bridge_row_run ti (dy + 1) (dx - 1) X1 = bridge_row_run ti (dy + 1) (dx - 1) X0"
  proof (rule bridge_row_run_cong)
    show "mapW X1 = mapW X0" "mapH X1 = mapH X0"
      by (simp_all add: X1_def flipped_simps)
    show "TI_ForeAnimTile ti (CA_mapPlanes X1 (Suc 0) i) = 0" if "TI_ForeAnimTile ti (CA_mapPlanes X0 (Suc 0) i) = 0" for i
      using that by (simp add: X1_def flipped_simps a0)
    show "TI_ForeAnimTile ti (CA_mapPlanes X1 (Suc 0) i) \<noteq> 0" if "i \<in> set (bridge_row_run ti (dy + 1) (dx - 1) X0)" for i
    proof -
      have "i \<in> R1 \<union> R2" using that by (simp add: R2_def)
      then show ?thesis
        using a2 [of i] nz [of i] by (simp add: X1_def X0 flipped_simps)
    qed
  qed
  from r2 have o2: "\<not> bridge_row_oob ti (dy + 1) (dx - 1) X1" and m1: "m1 = flipped ti X1 R2"
    by (auto simp: bridge_row_eq [of ti "dy + 1" "dx - 1" X1] run2_X1 R2_def split: if_splits)

  have frame: "mapW m1 = mapW m \<and> mapH m1 = mapH m \<and> CA_mapPlanes m1 2 = CA_mapPlanes m 2"
    by (simp add: m1 X1_def X0 flipped_simps)
  define Y0 where "Y0 = flipped ti m1 B"
  define Y1 where "Y1 = flipped ti Y0 R1"
  define m2 where "m2 = flipped ti Y1 R2"
  have t2: "CK6_ToggleBigSwitch ti obj dir m1 = bridge ti dx dy Y0"
    unfolding Y0_def using frame e2 by (rule toggle)
  have run1_Y0: "bridge_row_run ti dy dx Y0 = bridge_row_run ti dy dx X0"
  proof (rule bridge_row_run_cong)
    show "mapW Y0 = mapW X0" "mapH Y0 = mapH X0"
      by (simp_all add: Y0_def m1 X1_def flipped_simps)
    show "TI_ForeAnimTile ti (CA_mapPlanes Y0 (Suc 0) i) = 0" if "TI_ForeAnimTile ti (CA_mapPlanes X0 (Suc 0) i) = 0" for i
      using that by (simp add: Y0_def m1 X1_def flipped_simps a0)
    show "TI_ForeAnimTile ti (CA_mapPlanes Y0 (Suc 0) i) \<noteq> 0" if "i \<in> set (bridge_row_run ti dy dx X0)" for i
    proof -
      have "i \<in> R1 \<union> R2" using that by (simp add: R1_def)
      then show ?thesis
        using a2 [of i] nz [of i] by (simp add: Y0_def m1 X1_def X0 flipped_simps)
    qed
  qed
  have "bridge_row_oob ti dy dx Y0 = bridge_row_oob ti dy dx X0"
    by (rule bridge_row_oob_cong [OF _ _ run1_Y0]) (simp_all add: Y0_def m1 X1_def flipped_simps)
  then have row1: "bridge_row ti dy dx Y0 = Inr Y1"
    using o1 by (simp add: bridge_row_eq [of ti dy dx Y0] run1_Y0 Y1_def R1_def)
  have run2_Y1: "bridge_row_run ti (dy + 1) (dx - 1) Y1 = bridge_row_run ti (dy + 1) (dx - 1) X0"
  proof (rule bridge_row_run_cong)
    show "mapW Y1 = mapW X0" "mapH Y1 = mapH X0"
      by (simp_all add: Y1_def Y0_def m1 X1_def flipped_simps)
    show "TI_ForeAnimTile ti (CA_mapPlanes Y1 (Suc 0) i) = 0" if "TI_ForeAnimTile ti (CA_mapPlanes X0 (Suc 0) i) = 0" for i
      using that by (simp add: Y1_def Y0_def m1 X1_def flipped_simps a0)
    show "TI_ForeAnimTile ti (CA_mapPlanes Y1 (Suc 0) i) \<noteq> 0" if "i \<in> set (bridge_row_run ti (dy + 1) (dx - 1) X0)" for i
    proof -
      have "i \<in> R1 \<union> R2" using that by (simp add: R2_def)
      then show ?thesis
        using a2 [of i] nz [of i] by (simp add: Y1_def Y0_def m1 X1_def X0 flipped_simps)
    qed
  qed
  have "bridge_row_oob ti (dy + 1) (dx - 1) Y1 = bridge_row_oob ti (dy + 1) (dx - 1) X1"
    by (rule bridge_row_oob_cong [OF _ _ trans [OF run2_Y1 run2_X1 [symmetric]]])
       (simp_all add: Y1_def Y0_def m1 X1_def flipped_simps)
  then have row2: "bridge_row ti (dy + 1) (dx - 1) Y1 = Inr m2"
    using o2 by (simp add: bridge_row_eq [of ti "dy + 1" "dx - 1" Y1] run2_Y1 m2_def R2_def)
  have "CK6_ToggleBigSwitch ti obj dir m1 = Inr m2"
    by (simp add: t2 bridge_def row1 row2 bind_err_simps)
  moreover have "CA_mapPlanes m2 (Suc 0) i = CA_mapPlanes m (Suc 0) i" if "i \<in> R1 \<union> R2" for i
    using a2 [OF that] by (simp add: m2_def Y1_def Y0_def m1 X1_def X0 flipped_simps)
  ultimately show ?thesis
    by (auto simp: region)
qed

theorem C8_bridge_round_trip_witness:
  "anim_involutive ti_demo sw_map (set (bridge_region ti_demo sw_obj True sw_map))
   \<and> \<not> anim_involutive ti_demo sw_map {1}
   \<and> bridge_region ti_demo sw_obj True sw_map = [20, 21, 22, 27, 28]
   \<and> CK6_ToggleBigSwitch ti_demo sw_obj True sw_map = Inr sw_map_on
   \<and> CK6_toggle_effect ti_demo sw_obj True sw_map = Inr Bridge
   \<and> CK6_toggle_effect ti_demo sw_obj True sw_map_on = Inr Bridge
   \<and> CK6_ToggleBigSwitch ti_demo sw_obj True sw_map_on = Inr sw_map_off
   \<and> (\<exists>m2. CK6_ToggleBigSwitch ti_demo sw_obj True sw_map_on = Inr m2
         \<and> (\<forall>i \<in> set (bridge_region ti_demo sw_obj True sw_map). CA_mapPlanes m2 1 i = CA_mapPlanes sw_map 1 i))"
proof -
  have "\<not> anim_involutive ti_demo sw_map {1}"
    unfolding anim_involutive_def One_nat_def
    by (simp add: sw_map_simps sw_fg_def TI_animated_def ti_demo_def)
  moreover note sw_involutive_demo [OF refl] sw_region_demo [OF refl]
    sw_first_toggle [of ti_demo] sw_second_toggle
    C8_bridge_round_trip [of ti_demo sw_map sw_obj True sw_map_on]
  ultimately show ?thesis
    by (simp add: ti_demo_def)
qed

text \<open>
  With the tile info \<open>ti_stuck\<close> the offsets are the same, the first toggle has the effect
  of a bridge and turns the bridge tile 100 at the destination (index 20) into 101. The
  tile 101 has no misc flag, so the second toggle takes the last branch and changes the
  info tile of the destination instead: the bridge stays turned.
\<close>

theorem C8_counterexample:
  "anim_involutive ti_stuck sw_map (set (bridge_region ti_stuck sw_obj True sw_map))
   \<and> bridge_region ti_stuck sw_obj True sw_map = [20, 21, 22, 27, 28]
   \<and> CK6_toggle_effect ti_stuck sw_obj True sw_map = Inr Bridge
   \<and> fg_tile (Inr sw_map) 20 = Inr 100
   \<and> fg_tile (bind_err (CK6_ToggleBigSwitch ti_stuck sw_obj True sw_map)
                 (CK6_ToggleBigSwitch ti_stuck sw_obj True)) 20 = Inr 101"
proof -
  have t1: "CK6_toggle_effect ti_stuck sw_obj True sw_map = Inr Bridge"
    "CK6_ToggleBigSwitch ti_stuck sw_obj True sw_map = Inr sw_map_on"
    by (rule sw_first_toggle; simp add: ti_stuck_def ti_demo_def)+
  have eff: "CK6_switch_effect ti_stuck 4 2 (flipped ti_stuck sw_map_on {1, 2, 9, 10, 17, 18}) =
     (let miscValue = TI_ForeMisc ti_stuck (CA_mapPlanes (flipped ti_stuck sw_map_on {1, 2, 9, 10, 17, 18}) (Suc 0) 20) AND 0x7F
      in if miscValue = MISCFLAG_ACTIVEZAPPER ti_stuck then Inr ActiveZapper
         else if miscValue = MISCFLAG_INACTIVEZAPPER ti_stuck then Inr InactiveZapper
         else if miscValue = MISCFLAG_BRIDGE ti_stuck then Inr Bridge
         else Inr BBlock)"
    by (rule sw_effect_demo) (simp_all add: flipped_simps sw_map_simps)
  have e: "CK6_switch_effect ti_stuck 4 2 (flipped ti_stuck sw_map_on {1, 2, 9, 10, 17, 18}) = Inr BBlock"
    by (simp only: eff) (simp add: flipped_simps sw_map_simps sw_fg_on_def ti_stuck_def ti_demo_def)
  have t2: "CK6_ToggleBigSwitch ti_stuck sw_obj True sw_map_on
      = CA_writeTile 2 20 0x1F (flipped ti_stuck sw_map_on {1, 2, 9, 10, 17, 18})"
    using e
    by (simp add: CK6_ToggleBigSwitch_def CK6_switch_apply_def sw_tiles_demo sw_map_simps
          bind_err_simps CA_readTile_def CA_TilePtrAtPos_def CA_inPlane_def flipped_simps sw_info_def)
  have "fg_tile (CA_writeTile 2 20 0x1F (flipped ti_stuck sw_map_on {1, 2, 9, 10, 17, 18})) 20 = Inr 101"
    by (simp add: fg_tile_def CA_writeTile_def CA_inPlane_def flipped_simps sw_map_simps sw_fg_on_def)
  then have "fg_tile (bind_err (CK6_ToggleBigSwitch ti_stuck sw_obj True sw_map)
                 (CK6_ToggleBigSwitch ti_stuck sw_obj True)) 20 = Inr 101"
    by (simp only: t1 t2 bind_err_simps)
  moreover have "fg_tile (Inr sw_map) 20 = Inr 100"
    by (simp add: fg_tile_def sw_map_simps sw_fg_def)
  ultimately show ?thesis
    using sw_involutive_demo [OF sw_anim] sw_region_demo [OF sw_anim] t1(1) by simp
qed
end
